theory Spec2Isabelle
  imports Main "HOL-Library.AList"
begin

section \<open>Records and record sources\<close>

text \<open>
  A DataID is an opaque string. A record maps storage keys to field values; the
  reserved attributes \<open>__id\<close> and \<open>__typename\<close> are ordinary keys of it, as in the
  JavaScript object. Objects keep their keys in insertion order, so records and record
  sources are association lists.
\<close>

type_synonym dataID = string

datatype fieldValue =
    ScalarString string
  | ScalarNumber int
  | ScalarBoolean bool
  | ScalarNull
  | LinkedRef dataID
  | PluralRefs "dataID option list"

type_synonym relayRecord = "(string \<times> fieldValue) list"

text \<open>
  What a record source holds at a DataID: a record, or \<open>null\<close> (the tombstone of a
  deleted record). A DataID the source does not hold reads as \<open>undefined\<close>, which is
  \<open>None\<close> of the lookup.
\<close>

datatype recordState = Rec relayRecord | Tombstone

type_synonym recordSource = "(dataID \<times> recordState) list"

text \<open>
  Modelled from the spec: the constant \<open>UNPUBLISH_RECORD_SENTINEL\<close> of RelayStoreUtils,
  which is not among the source files. It is one distinguished frozen record, "distinct
  from tombstone"; the test \<open>sourceRecord === UNPUBLISH_RECORD_SENTINEL\<close> is equality with
  this value (a normalized record always carries \<open>__id\<close>, so no other record equals it).
\<close>

definition UNPUBLISH_RECORD_SENTINEL :: relayRecord where
  "UNPUBLISH_RECORD_SENTINEL = [(''__UNPUBLISH_RECORD_SENTINEL'', ScalarBoolean True)]"

text \<open>
  Modelled from the spec: the class RelayRecordSource is not among the source files. The
  spec gives it as a mapping DataID \<open>\<rightarrow>\<close> (Record | tombstone | absent) that "exposes: get,
  set, delete (write tombstone), remove (forget entirely), getRecordIDs, size, clear".
\<close>

definition sourceCreate :: recordSource where
  "sourceCreate = []"

definition sourceGet :: "recordSource \<Rightarrow> dataID \<Rightarrow> recordState option" where
  "sourceGet source dataID = map_of source dataID"

definition sourceSet :: "recordSource \<Rightarrow> dataID \<Rightarrow> relayRecord \<Rightarrow> recordSource" where
  "sourceSet source dataID r = AList.update dataID (Rec r) source"

definition sourceDelete :: "recordSource \<Rightarrow> dataID \<Rightarrow> recordSource" where
  "sourceDelete source dataID = AList.update dataID Tombstone source"

definition sourceRemove :: "recordSource \<Rightarrow> dataID \<Rightarrow> recordSource" where
  "sourceRemove source dataID = AList.delete dataID source"

definition getRecordIDs :: "recordSource \<Rightarrow> dataID list" where
  "getRecordIDs source = map fst source"

definition sourceSize :: "recordSource \<Rightarrow> nat" where
  "sourceSize source = length source"

definition sourceClear :: "recordSource \<Rightarrow> recordSource" where
  "sourceClear source = []"

text \<open>
  Modelled from the spec: \<open>RelayModernRecord.update(prevRecord, nextRecord)\<close> is not among
  the source files. The spec gives it as the "field-wise merge producing a new record; if
  equal by value to the previous, do not mark changed": the fields of \<open>nextRecord\<close> are
  written over \<open>prevRecord\<close>. The caller's test \<open>nextRecord !== targetRecord\<close> is therefore
  inequality of the merged record and the previous one.
\<close>

definition recordUpdate :: "relayRecord \<Rightarrow> relayRecord \<Rightarrow> relayRecord" where
  "recordUpdate prevRecord nextRecord = AList.merge prevRecord nextRecord"


section \<open>Selectors and snapshots\<close>

text \<open>
  A reader selector names the fragment node to read, the DataID to start from and the
  variables. The store passes a snapshot where a selector is expected, so a snapshot
  extends the selector by what the read produced. The node \<open>'n\<close>, the materialized data
  \<open>'d\<close> and the owner \<open>'o\<close> are opaque to the store. Values of \<open>'d\<close> stand for object
  references: equality on them is \<open>===\<close>.
\<close>

type_synonym variables = "(string \<times> string) list"

datatype 'd selectorData = DataUndefined | DataNull | DataObject 'd

record 'n readerSelector =
  dataID :: dataID
  node :: 'n
  variables :: variables

record ('n, 'd, 'o) snapshot = "'n readerSelector" +
  data :: "'d selectorData"
  isMissingData :: bool
  seenRecords :: "dataID set"
  owner :: "'o option"

text \<open>A subscription; the callback is a handle of the subscriber's closure.\<close>

record ('n, 'd, 'o) subscription =
  callback :: nat
  snapshot :: "('n, 'd, 'o) snapshot"

text \<open>
  The collaborators of the store that are not among the source files are parameters:
  \<open>RelayReader.read\<close>, \<open>recycleNodesInto\<close> and the traversal of the reference marker.
  For the marker the parameter gives, for a source and one normalization selector, the
  DataIDs the traversal visits; \<open>RelayReferenceMarker.mark\<close> "adds every dataID visited
  to an out-parameter set".
\<close>

type_synonym ('n, 'd, 'o) reader =
  "recordSource \<Rightarrow> 'n readerSelector \<Rightarrow> 'o option \<Rightarrow> ('n, 'd, 'o) snapshot"

type_synonym 'd recycler = "'d selectorData \<Rightarrow> 'd selectorData \<Rightarrow> 'd selectorData"

type_synonym 'ns marker = "recordSource \<Rightarrow> 'ns \<Rightarrow> dataID set"


section \<open>RelayModernStore\<close>

text \<open>
  The GC scheduler is a function that receives a thunk. \<open>RunNow\<close> invokes the thunk at
  once (a synchronous scheduler); \<open>Defer\<close> keeps it for later, as the default
  \<open>resolveImmediate\<close> does. The store schedules at most one thunk at a time (guarded by
  \<open>hasScheduledGC\<close>), so under \<open>Defer\<close> the flag itself says that the thunk is waiting,
  and \<open>runScheduledGC\<close> is the scheduler firing it.
\<close>

datatype scheduler = RunNow | Defer

text \<open>
  The fields of the class. \<open>_operationLoader\<close> and \<open>_getDataID\<close> are only handed on to
  the data checker and the reference marker, which are parameters here, so the record
  does not carry them.
\<close>

record ('n, 'd, 'o, 'ns) store =
  gcScheduler :: scheduler
  hasScheduledGC :: bool
  index :: nat
  recordSource :: recordSource
  roots :: "(nat \<times> 'ns) list"
  subscriptions :: "('n, 'd, 'o) subscription list"
  updatedRecordIDs :: "dataID set"
  gcHoldCounter :: int
  shouldScheduleGC :: bool

definition storeCreate :: "recordSource \<Rightarrow> scheduler \<Rightarrow> ('n, 'd, 'o, 'ns) store" where
  "storeCreate source sched =
     \<lparr> gcScheduler = sched, hasScheduledGC = False, index = 0, recordSource = source,
       roots = [], subscriptions = [], updatedRecordIDs = {}, gcHoldCounter = 0,
       shouldScheduleGC = False \<rparr>"

definition getSource :: "('n, 'd, 'o, 'ns) store \<Rightarrow> recordSource" where
  "getSource st = recordSource st"

subsection \<open>Garbage collection\<close>

definition markRoots :: "'ns marker \<Rightarrow> ('n, 'd, 'o, 'ns) store \<Rightarrow> dataID set" where
  "markRoots mark st =
     fold (\<lambda>(i, selector) references. references \<union> mark (recordSource st) selector)
       (roots st) {}"

definition evictUnreferenced :: "dataID set \<Rightarrow> dataID list \<Rightarrow> recordSource \<Rightarrow> recordSource" where
  "evictUnreferenced references storeIDs source =
     fold (\<lambda>dataID src. if dataID \<notin> references then sourceRemove src dataID else src)
       storeIDs source"

definition gc :: "'ns marker \<Rightarrow> ('n, 'd, 'o, 'ns) store \<Rightarrow> ('n, 'd, 'o, 'ns) store" where
  "gc mark st =
     (let references = markRoots mark st in
      if references = {} then st\<lparr>recordSource := sourceClear (recordSource st)\<rparr>
      else st\<lparr>recordSource :=
             evictUnreferenced references (getRecordIDs (recordSource st)) (recordSource st)\<rparr>)"

definition scheduleGC :: "'ns marker \<Rightarrow> ('n, 'd, 'o, 'ns) store \<Rightarrow> ('n, 'd, 'o, 'ns) store" where
  "scheduleGC mark st =
     (if gcHoldCounter st > 0 then st\<lparr>shouldScheduleGC := True\<rparr>
      else if hasScheduledGC st then st
      else (case gcScheduler st of
              RunNow \<Rightarrow> (gc mark (st\<lparr>hasScheduledGC := True\<rparr>))\<lparr>hasScheduledGC := False\<rparr>
            | Defer \<Rightarrow> st\<lparr>hasScheduledGC := True\<rparr>))"

definition runScheduledGC :: "'ns marker \<Rightarrow> ('n, 'd, 'o, 'ns) store \<Rightarrow> ('n, 'd, 'o, 'ns) store" where
  "runScheduledGC mark st =
     (if hasScheduledGC st \<and> gcScheduler st = Defer
      then (gc mark st)\<lparr>hasScheduledGC := False\<rparr> else st)"

subsection \<open>Retaining roots and holding the collector\<close>

text \<open>
  \<open>retain\<close> and \<open>holdGC\<close> return a disposable, a closure over the store. The disposable
  of \<open>retain\<close> remembers its index; the one of \<open>holdGC\<close> remembers nothing, so every
  disposable of \<open>holdGC\<close> runs the same code on the store, however often it is called.
\<close>

datatype disposable = HoldDisposable | RetainDisposable nat

definition retain ::
  "'ns \<Rightarrow> ('n, 'd, 'o, 'ns) store \<Rightarrow> disposable \<times> ('n, 'd, 'o, 'ns) store" where
  "retain selector st =
     (RetainDisposable (index st),
      st\<lparr>index := index st + 1, roots := AList.update (index st) selector (roots st)\<rparr>)"

definition holdGC :: "('n, 'd, 'o, 'ns) store \<Rightarrow> disposable \<times> ('n, 'd, 'o, 'ns) store" where
  "holdGC st = (HoldDisposable, st\<lparr>gcHoldCounter := gcHoldCounter st + 1\<rparr>)"

fun dispose ::
  "'ns marker \<Rightarrow> disposable \<Rightarrow> ('n, 'd, 'o, 'ns) store \<Rightarrow> ('n, 'd, 'o, 'ns) store" where
  "dispose mark (RetainDisposable i) st =
     scheduleGC mark (st\<lparr>roots := AList.delete i (roots st)\<rparr>)"
| "dispose mark HoldDisposable st =
     (if gcHoldCounter st > 0 then
        (let st1 = st\<lparr>gcHoldCounter := gcHoldCounter st - 1\<rparr> in
         if gcHoldCounter st1 = 0 \<and> shouldScheduleGC st1
         then (scheduleGC mark st1)\<lparr>shouldScheduleGC := False\<rparr>
         else st1)
      else st)"

text \<open>
  The calls a client can make that reach the hold counter or the scheduling of the
  collector, and a run of any sequence of them.
\<close>

datatype 'ns gcOp =
    CallHoldGC
  | CallRetain 'ns
  | CallDispose disposable
  | SchedulerFires

fun gcStep :: "'ns marker \<Rightarrow> 'ns gcOp \<Rightarrow> ('n, 'd, 'o, 'ns) store \<Rightarrow> ('n, 'd, 'o, 'ns) store" where
  "gcStep mark CallHoldGC st = snd (holdGC st)"
| "gcStep mark (CallRetain selector) st = snd (retain selector st)"
| "gcStep mark (CallDispose d) st = dispose mark d st"
| "gcStep mark SchedulerFires st = runScheduledGC mark st"

definition gcRun ::
  "'ns marker \<Rightarrow> 'ns gcOp list \<Rightarrow> ('n, 'd, 'o, 'ns) store \<Rightarrow> ('n, 'd, 'o, 'ns) store" where
  "gcRun mark ops st = fold (gcStep mark) ops st"

subsection \<open>Publishing\<close>

text \<open>
  One turn of the loop of \<open>updateTargetFromSource\<close>, for one DataID of the source; the
  state is the target and the set of updated record IDs. The branches are in the order
  of the source. A record is truthy, \<open>null\<close> and \<open>undefined\<close> are not.
\<close>

definition updateTargetStep ::
  "recordSource \<Rightarrow> dataID \<Rightarrow> recordSource \<times> dataID set \<Rightarrow> recordSource \<times> dataID set" where
  "updateTargetStep source recordID state =
     (let target = fst state; updated = snd state;
          sourceRecord = sourceGet source recordID;
          targetRecord = sourceGet target recordID
      in if sourceRecord = Some (Rec UNPUBLISH_RECORD_SENTINEL) then
           (sourceRemove target recordID, insert recordID updated)
         else (case (sourceRecord, targetRecord) of
             (Some (Rec s), Some (Rec t)) \<Rightarrow>
               (let nextRecord = recordUpdate t s in
                if nextRecord \<noteq> t
                then (sourceSet target recordID nextRecord, insert recordID updated)
                else (target, updated))
           | (Some Tombstone, _) \<Rightarrow>
               (sourceDelete target recordID,
                if targetRecord \<noteq> Some Tombstone then insert recordID updated else updated)
           | (Some (Rec s), _) \<Rightarrow> (sourceSet target recordID s, insert recordID updated)
           | (None, _) \<Rightarrow> (target, updated)))"

definition updateTargetFromSource ::
  "recordSource \<Rightarrow> recordSource \<Rightarrow> dataID set \<Rightarrow> recordSource \<times> dataID set" where
  "updateTargetFromSource target source updated =
     fold (updateTargetStep source) (getRecordIDs source) (target, updated)"

definition publish :: "recordSource \<Rightarrow> ('n, 'd, 'o, 'ns) store \<Rightarrow> ('n, 'd, 'o, 'ns) store" where
  "publish source st =
     (let result = updateTargetFromSource (recordSource st) source (updatedRecordIDs st)
      in st\<lparr>recordSource := fst result, updatedRecordIDs := snd result\<rparr>)"

subsection \<open>Reading and subscriptions\<close>

definition lookup ::
  "('n, 'd, 'o) reader \<Rightarrow> 'n readerSelector \<Rightarrow> 'o option \<Rightarrow> ('n, 'd, 'o, 'ns) store
     \<Rightarrow> ('n, 'd, 'o) snapshot" where
  "lookup read selector own st = read (recordSource st) selector own"

definition subscribe ::
  "('n, 'd, 'o) snapshot \<Rightarrow> nat \<Rightarrow> ('n, 'd, 'o, 'ns) store \<Rightarrow> ('n, 'd, 'o, 'ns) store" where
  "subscribe snap cb st =
     st\<lparr>subscriptions := subscriptions st @ [\<lparr>callback = cb, snapshot = snap\<rparr>]\<rparr>"

text \<open>
  Modelled from the spec: \<open>hasOverlappingIDs\<close> is not among the source files. The spec:
  the "intersection test \<open>hasOverlappingIDs(snapshot, updatedIDs)\<close> uses the snapshot's
  \<open>seenRecords\<close> and the updated set; both are keyed by DataID".
\<close>

definition hasOverlappingIDs :: "('n, 'd, 'o) snapshot \<Rightarrow> dataID set \<Rightarrow> bool" where
  "hasOverlappingIDs snap updated = (seenRecords snap \<inter> updated \<noteq> {})"

text \<open>
  What \<open>_updateSubscription\<close> does to one subscription: the subscription as it is
  afterwards, the call of the callback if one was made (the callback and the snapshot it
  received), and the owner returned (\<open>None\<close> for \<open>undefined\<close> and for a \<open>null\<close> owner).
\<close>

record ('n, 'd, 'o) subscriptionUpdate =
  updatedSubscription :: "('n, 'd, 'o) subscription"
  callbackCall :: "(nat \<times> ('n, 'd, 'o) snapshot) option"
  returnedOwner :: "'o option"

definition updateSubscription ::
  "('n, 'd, 'o) reader \<Rightarrow> 'd recycler \<Rightarrow> ('n, 'd, 'o, 'ns) store \<Rightarrow> ('n, 'd, 'o) subscription
     \<Rightarrow> ('n, 'd, 'o) subscriptionUpdate" where
  "updateSubscription read recycleNodesInto st sub =
     (let snap = snapshot sub in
      if \<not> hasOverlappingIDs snap (updatedRecordIDs st) then
        \<lparr>updatedSubscription = sub, callbackCall = None, returnedOwner = None\<rparr>
      else
        (let nextSnapshot = read (recordSource st) (readerSelector.truncate snap) (owner snap);
             nextData = recycleNodesInto (data snap) (data nextSnapshot);
             nextSnapshot = nextSnapshot\<lparr>data := nextData\<rparr>;
             sub' = sub\<lparr>snapshot := nextSnapshot\<rparr>
         in if data nextSnapshot \<noteq> data snap then
              \<lparr>updatedSubscription = sub', callbackCall = Some (callback sub, nextSnapshot),
                returnedOwner = owner snap\<rparr>
            else \<lparr>updatedSubscription = sub', callbackCall = None, returnedOwner = None\<rparr>))"

text \<open>
  \<open>notify\<close> returns the updated owners; the model also returns the calls of callbacks
  it made, in order, and the store as it is afterwards.
\<close>

record ('n, 'd, 'o, 'ns) notified =
  updatedOwners :: "'o list"
  callbackCalls :: "(nat \<times> ('n, 'd, 'o) snapshot) list"
  notifiedStore :: "('n, 'd, 'o, 'ns) store"

definition notify ::
  "('n, 'd, 'o) reader \<Rightarrow> 'd recycler \<Rightarrow> ('n, 'd, 'o, 'ns) store \<Rightarrow> ('n, 'd, 'o, 'ns) notified" where
  "notify read recycleNodesInto st =
     (let updates = map (updateSubscription read recycleNodesInto st) (subscriptions st) in
      \<lparr>updatedOwners = List.map_filter returnedOwner updates,
        callbackCalls = List.map_filter callbackCall updates,
        notifiedStore = st\<lparr>subscriptions := map updatedSubscription updates,
                           updatedRecordIDs := {}\<rparr>\<rparr>)"



section \<open>RelayReader: the root of a read\<close>

text \<open>
  Modelled from the spec: RelayReader is not among the source files; its tests are. The
  spec's missing root policy: "if the root dataID is tombstoned, data is \<open>null\<close>; if
  absent, data is \<open>undefined\<close> and \<open>isMissingData\<close> is true", and "every record visited
  (including any read whose result was null or absent) is added to \<open>seenRecords\<close>". The
  walk of the selections over a root record that exists is the parameter \<open>traverse\<close>: it
  gives the data, the missing-data flag and the further records seen.
\<close>

type_synonym ('n, 'd) traversal =
  "recordSource \<Rightarrow> 'n readerSelector \<Rightarrow> relayRecord \<Rightarrow> 'd selectorData \<times> bool \<times> dataID set"

definition read :: "('n, 'd) traversal \<Rightarrow> ('n, 'd, 'o) reader" where
  "read traverse source selector own =
     (case sourceGet source (dataID selector) of
        None \<Rightarrow>
          \<lparr>dataID = dataID selector, node = node selector, variables = variables selector,
            data = DataUndefined, isMissingData = True,
            seenRecords = {dataID selector}, owner = own\<rparr>
      | Some Tombstone \<Rightarrow>
          \<lparr>dataID = dataID selector, node = node selector, variables = variables selector,
            data = DataNull, isMissingData = False,
            seenRecords = {dataID selector}, owner = own\<rparr>
      | Some (Rec r) \<Rightarrow>
          (case traverse source selector r of (d, missing, seen) \<Rightarrow>
            \<lparr>dataID = dataID selector, node = node selector, variables = variables selector,
              data = d, isMissingData = missing,
              seenRecords = insert (dataID selector) seen, owner = own\<rparr>))"


section \<open>RelayPublishQueue\<close>

subsection \<open>Updaters, handlers and the proxy\<close>

text \<open>
  User updaters and handlers receive a proxy over a RelayRecordSourceMutator, which holds
  the base (the store's source), the sink they write to and, for optimistic updates, the
  backup. The mutator and the proxy are not among the source files, so the model does not
  look inside them: code that receives the proxy is a function from the mutator as it
  finds it to the mutator as it leaves it, together with the way it left, by returning or
  by throwing. What was written before a throw stays written.
\<close>

record mutator =
  mutatorBase :: recordSource
  mutatorSink :: recordSource
  mutatorBackup :: "recordSource option"

datatype 'a outcome = Returned 'a | Thrown 'a

type_synonym effect = "mutator \<Rightarrow> mutator outcome"

record handleFieldPayload =
  handle :: string
  payloadDataID :: dataID
  fieldKey :: string
  handleKey :: string

type_synonym handler = "handleFieldPayload \<Rightarrow> effect"

type_synonym handlerProvider = "string \<Rightarrow> handler option"

type_synonym 'd selectorStoreUpdater = "'d selectorData \<Rightarrow> effect"

record ('n, 'ns) operationDescriptor =
  fragment :: "'n readerSelector"
  root :: 'ns

text \<open>
  Sets of objects are lists in insertion order without repetition. Objects and closures
  are compared by identity: an optimistic update and a queued updater carry the identity
  of their object as a number, next to what they hold.
\<close>

definition setAdd :: "'a \<Rightarrow> 'a list \<Rightarrow> 'a list" where
  "setAdd x xs = (if x \<in> set xs then xs else xs @ [x])"

definition setDelete :: "'a \<Rightarrow> 'a list \<Rightarrow> 'a list" where
  "setDelete x xs = removeAll x xs"

datatype ('n, 'd, 'ns, 'p) optimisticUpdate =
    OperationUpdate nat "('n, 'ns) operationDescriptor" "'p option"
      "'d selectorStoreUpdater option"
  | StoreUpdaterUpdate nat effect
  | SourceUpdate nat recordSource "handleFieldPayload list option"

datatype ('n, 'd, 'ns) dataToCommit =
    PayloadData "handleFieldPayload list option" "('n, 'ns) operationDescriptor" recordSource
      "'d selectorStoreUpdater option"
  | SourceData recordSource

text \<open>
  The fields of the queue. \<open>_getDataID\<close> is only handed on to the proxy and the
  normalizer, which are parameters, so the record does not carry it.
\<close>

type_synonym ('n, 'd, 'ns) relayStore =
  "('n, 'd, ('n, 'ns) operationDescriptor, 'ns) store"

record ('n, 'd, 'ns, 'p) publishQueue =
  store :: "('n, 'd, 'ns) relayStore"
  handlerProvider :: "handlerProvider option"
  backup :: recordSource
  pendingBackupRebase :: bool
  pendingData :: "('n, 'd, 'ns) dataToCommit list"
  pendingUpdaters :: "(nat \<times> effect) list"
  pendingOptimisticUpdates :: "('n, 'd, 'ns, 'p) optimisticUpdate list"
  appliedOptimisticUpdates :: "('n, 'd, 'ns, 'p) optimisticUpdate list"
  gcHold :: "disposable option"

text \<open>
  The collaborators of the queue that are not among the source files, as parameters: the
  reader, the recycler and the marker the store uses, \<open>normalizeRelayPayload\<close> (which
  gives the normalized source, or throws), and the two methods of the record source proxy
  the queue calls.
\<close>

record ('n, 'd, 'ns, 'p) collaborators =
  readerOf :: "('n, 'd, ('n, 'ns) operationDescriptor) reader"
  recyclerOf :: "'d recycler"
  markerOf :: "'ns marker"
  normalizeRelayPayload :: "'ns \<Rightarrow> 'p \<Rightarrow> recordSource option"
  proxyCommitPayload :: "('n, 'ns) operationDescriptor \<Rightarrow> 'p option \<Rightarrow> effect"
  proxyPublishSource :: "recordSource \<Rightarrow> handleFieldPayload list option \<Rightarrow> effect"

definition queueCreate ::
  "('n, 'd, 'ns) relayStore \<Rightarrow> handlerProvider option \<Rightarrow> ('n, 'd, 'ns, 'p) publishQueue" where
  "queueCreate st provider =
     \<lparr> store = st, handlerProvider = provider, backup = sourceCreate,
       pendingBackupRebase = False, pendingData = [], pendingUpdaters = [],
       pendingOptimisticUpdates = [], appliedOptimisticUpdates = [], gcHold = None \<rparr>"

subsection \<open>Scheduling\<close>

text \<open>\<open>applyUpdate\<close> throws (the invariant) when the update is already pending or applied.\<close>

definition applyUpdate ::
  "('n, 'd, 'ns, 'p) optimisticUpdate \<Rightarrow> ('n, 'd, 'ns, 'p) publishQueue
     \<Rightarrow> ('n, 'd, 'ns, 'p) publishQueue outcome" where
  "applyUpdate updater q =
     (if updater \<notin> set (appliedOptimisticUpdates q) \<and>
         updater \<notin> set (pendingOptimisticUpdates q)
      then Returned (q\<lparr>pendingOptimisticUpdates := setAdd updater (pendingOptimisticUpdates q)\<rparr>)
      else Thrown q)"

definition revertUpdate ::
  "('n, 'd, 'ns, 'p) optimisticUpdate \<Rightarrow> ('n, 'd, 'ns, 'p) publishQueue
     \<Rightarrow> ('n, 'd, 'ns, 'p) publishQueue" where
  "revertUpdate updater q =
     (if updater \<in> set (pendingOptimisticUpdates q) then
        q\<lparr>pendingOptimisticUpdates := setDelete updater (pendingOptimisticUpdates q)\<rparr>
      else if updater \<in> set (appliedOptimisticUpdates q) then
        q\<lparr>pendingBackupRebase := True,
          appliedOptimisticUpdates := setDelete updater (appliedOptimisticUpdates q)\<rparr>
      else q)"

definition revertAll :: "('n, 'd, 'ns, 'p) publishQueue \<Rightarrow> ('n, 'd, 'ns, 'p) publishQueue" where
  "revertAll q =
     q\<lparr>pendingBackupRebase := True, pendingOptimisticUpdates := [],
       appliedOptimisticUpdates := []\<rparr>"

text \<open>Every call of \<open>commitPayload\<close> and \<open>commitSource\<close> adds a fresh object to the set.\<close>

definition commitPayload ::
  "('n, 'ns) operationDescriptor \<Rightarrow> handleFieldPayload list option \<Rightarrow> recordSource
     \<Rightarrow> 'd selectorStoreUpdater option \<Rightarrow> ('n, 'd, 'ns, 'p) publishQueue
     \<Rightarrow> ('n, 'd, 'ns, 'p) publishQueue" where
  "commitPayload operation fps src updater q =
     q\<lparr>pendingBackupRebase := True,
       pendingData := pendingData q @ [PayloadData fps operation src updater]\<rparr>"

definition commitUpdate ::
  "nat \<times> effect \<Rightarrow> ('n, 'd, 'ns, 'p) publishQueue \<Rightarrow> ('n, 'd, 'ns, 'p) publishQueue" where
  "commitUpdate updater q =
     q\<lparr>pendingBackupRebase := True, pendingUpdaters := setAdd updater (pendingUpdaters q)\<rparr>"

definition commitSource ::
  "recordSource \<Rightarrow> ('n, 'd, 'ns, 'p) publishQueue \<Rightarrow> ('n, 'd, 'ns, 'p) publishQueue" where
  "commitSource src q =
     q\<lparr>pendingBackupRebase := True, pendingData := pendingData q @ [SourceData src]\<rparr>"

subsection \<open>Running the queue\<close>

text \<open>
  Modelled from the spec: \<open>ErrorUtils.applyWithGuard\<close> is a module outside the
  repository. The spec: "errors in user-provided updaters are caught, logged, and do not
  abort". The guarded call returns in either case; a throw adds the name given to the
  guard to the log of reported errors.
\<close>

definition applyWithGuard ::
  "effect \<Rightarrow> string \<Rightarrow> mutator \<times> string list \<Rightarrow> mutator \<times> string list" where
  "applyWithGuard f name state =
     (case f (fst state) of
        Returned m \<Rightarrow> (m, snd state)
      | Thrown m \<Rightarrow> (m, snd state @ [name]))"

definition lookupSelector ::
  "('n, 'd, 'o) reader \<Rightarrow> recordSource \<Rightarrow> 'n readerSelector \<Rightarrow> 'o \<Rightarrow> 'd selectorData" where
  "lookupSelector reader src selector own = data (reader src selector (Some own))"

text \<open>
  The handlers of the field payloads, in order. A handle without a handler fails the
  invariant; a handler that throws is not caught.
\<close>

fun runHandlers ::
  "handlerProvider option \<Rightarrow> handleFieldPayload list \<Rightarrow> mutator \<Rightarrow> mutator outcome" where
  "runHandlers provider [] m = Returned m"
| "runHandlers provider (fieldPayload # rest) m =
     (case (case provider of None \<Rightarrow> None | Some p \<Rightarrow> p (handle fieldPayload)) of
        None \<Rightarrow> Thrown m
      | Some h \<Rightarrow>
          (case h fieldPayload m of
             Thrown m' \<Rightarrow> Thrown m'
           | Returned m' \<Rightarrow> runHandlers provider rest m'))"

text \<open>
  \<open>_getSourceFromPayload\<close>: the payload's source is the sink, there is no backup. The
  updater is called directly. The result is the source as the call left it. The invariant
  that \<open>operation.fragment\<close> is not \<open>null\<close> cannot fail here: the fragment of an operation
  descriptor is a reader selector.
\<close>

definition getSourceFromPayload ::
  "('n, 'd, 'ns, 'p) collaborators \<Rightarrow> ('n, 'd, 'ns, 'p) publishQueue
     \<Rightarrow> handleFieldPayload list option \<Rightarrow> ('n, 'ns) operationDescriptor \<Rightarrow> recordSource
     \<Rightarrow> 'd selectorStoreUpdater option \<Rightarrow> recordSource outcome" where
  "getSourceFromPayload env q fps operation src updater =
     (let m0 = \<lparr>mutatorBase = getSource (store q), mutatorSink = src, mutatorBackup = None\<rparr> in
      case runHandlers (handlerProvider q) (case fps of None \<Rightarrow> [] | Some l \<Rightarrow> l) m0 of
        Thrown m \<Rightarrow> Thrown (mutatorSink m)
      | Returned m1 \<Rightarrow>
          (case updater of
             None \<Rightarrow> Returned (mutatorSink m1)
           | Some u \<Rightarrow>
               (let selectorData =
                      lookupSelector (readerOf env) (mutatorSink m1) (fragment operation) operation
                in case u selectorData m1 of
                     Thrown m \<Rightarrow> Thrown (mutatorSink m)
                   | Returned m \<Rightarrow> Returned (mutatorSink m))))"

text \<open>
  The loop of \<open>_commitData\<close> over the entries still to do; the entries done are kept,
  since a payload's source is changed in place and the set is cleared only after the loop.
\<close>

fun commitDataLoop ::
  "('n, 'd, 'ns, 'p) collaborators \<Rightarrow> ('n, 'd, 'ns) dataToCommit list
     \<Rightarrow> ('n, 'd, 'ns) dataToCommit list \<Rightarrow> ('n, 'd, 'ns, 'p) publishQueue
     \<Rightarrow> ('n, 'd, 'ns, 'p) publishQueue outcome" where
  "commitDataLoop env [] done q = Returned q"
| "commitDataLoop env (SourceData src # todo) done q =
     commitDataLoop env todo (done @ [SourceData src]) (q\<lparr>store := publish src (store q)\<rparr>)"
| "commitDataLoop env (PayloadData fps operation src updater # todo) done q =
     (case getSourceFromPayload env q fps operation src updater of
        Thrown src' \<Rightarrow>
          Thrown (q\<lparr>pendingData := done @ PayloadData fps operation src' updater # todo\<rparr>)
      | Returned src' \<Rightarrow>
          commitDataLoop env todo (done @ [PayloadData fps operation src' updater])
            (q\<lparr>pendingData := done @ PayloadData fps operation src' updater # todo,
               store := publish src' (store q)\<rparr>))"

definition commitData ::
  "('n, 'd, 'ns, 'p) collaborators \<Rightarrow> ('n, 'd, 'ns, 'p) publishQueue
     \<Rightarrow> ('n, 'd, 'ns, 'p) publishQueue outcome" where
  "commitData env q =
     (if pendingData q = [] then Returned q
      else (case commitDataLoop env (pendingData q) [] q of
              Thrown q' \<Rightarrow> Thrown q'
            | Returned q' \<Rightarrow> Returned (q'\<lparr>pendingData := []\<rparr>)))"

text \<open>
  \<open>_commitUpdaters\<close>: one sink for all updaters, a mutator without backup for each, every
  call under the guard. The state carries the log of reported errors.
\<close>

definition commitUpdaters ::
  "('n, 'd, 'ns, 'p) publishQueue \<times> string list \<Rightarrow> ('n, 'd, 'ns, 'p) publishQueue \<times> string list" where
  "commitUpdaters state =
     (let q = fst state in
      if pendingUpdaters q = [] then state
      else
        (let result =
               fold (\<lambda>updater acc.
                       (let guarded =
                              applyWithGuard (snd updater) ''RelayPublishQueue:commitUpdaters''
                                (\<lparr>mutatorBase = getSource (store q), mutatorSink = fst acc,
                                   mutatorBackup = None\<rparr>, snd acc)
                        in (mutatorSink (fst guarded), snd guarded)))
                 (pendingUpdaters q) (sourceCreate, snd state)
         in (q\<lparr>store := publish (fst result) (store q), pendingUpdaters := []\<rparr>, snd result)))"

text \<open>
  One optimistic update run against the mutator, as both loops of \<open>_applyUpdates\<close> do it.
  The calls into the proxy and the normalizer are not guarded; the user's updaters are.
\<close>

fun applyOptimisticUpdate ::
  "('n, 'd, 'ns, 'p) collaborators \<Rightarrow> ('n, 'd, 'ns, 'p) optimisticUpdate
     \<Rightarrow> mutator \<times> string list \<Rightarrow> (mutator \<times> string list) outcome" where
  "applyOptimisticUpdate env (OperationUpdate i operation response selectorStoreUpdater) state =
     (case proxyCommitPayload env operation response (fst state) of
        Thrown m \<Rightarrow> Thrown (m, snd state)
      | Returned m \<Rightarrow>
          (case (case response of
                   None \<Rightarrow> Some DataUndefined
                 | Some r \<Rightarrow>
                     (case normalizeRelayPayload env (root operation) r of
                        None \<Rightarrow> None
                      | Some src \<Rightarrow>
                          Some (lookupSelector (readerOf env) src (fragment operation) operation)))
           of None \<Rightarrow> Thrown (m, snd state)
            | Some selectorData \<Rightarrow>
                (case selectorStoreUpdater of
                   None \<Rightarrow> Returned (m, snd state)
                 | Some u \<Rightarrow>
                     Returned (applyWithGuard (u selectorData) ''RelayPublishQueue:applyUpdates''
                                 (m, snd state)))))"
| "applyOptimisticUpdate env (StoreUpdaterUpdate i storeUpdater) state =
     Returned (applyWithGuard storeUpdater ''RelayPublishQueue:applyUpdates'' state)"
| "applyOptimisticUpdate env (SourceUpdate i src fps) state =
     (case proxyPublishSource env src fps (fst state) of
        Thrown m \<Rightarrow> Thrown (m, snd state)
      | Returned m \<Rightarrow> Returned (m, snd state))"

text \<open>The first loop: the applied updates are run again.\<close>

fun rerunApplied ::
  "('n, 'd, 'ns, 'p) collaborators \<Rightarrow> ('n, 'd, 'ns, 'p) optimisticUpdate list
     \<Rightarrow> mutator \<times> string list \<Rightarrow> (mutator \<times> string list) outcome" where
  "rerunApplied env [] state = Returned state"
| "rerunApplied env (u # us) state =
     (case applyOptimisticUpdate env u state of
        Thrown state' \<Rightarrow> Thrown state'
      | Returned state' \<Rightarrow> rerunApplied env us state')"

text \<open>
  The second loop: each pending update is run and then added to the applied set; the
  result carries the applied set as the loop left it.
\<close>

fun applyPending ::
  "('n, 'd, 'ns, 'p) collaborators \<Rightarrow> ('n, 'd, 'ns, 'p) optimisticUpdate list
     \<Rightarrow> ('n, 'd, 'ns, 'p) optimisticUpdate list \<Rightarrow> mutator \<times> string list
     \<Rightarrow> ('n, 'd, 'ns, 'p) optimisticUpdate list \<times> (mutator \<times> string list) outcome" where
  "applyPending env [] applied state = (applied, Returned state)"
| "applyPending env (u # us) applied state =
     (case applyOptimisticUpdate env u state of
        Thrown state' \<Rightarrow> (applied, Thrown state')
      | Returned state' \<Rightarrow> applyPending env us (setAdd u applied) state')"

text \<open>
  The mutator writes into the queue's own backup object, so the queue's backup is the
  backup of the mutator as the updates left it.
\<close>

definition backupAfter :: "mutator \<Rightarrow> recordSource \<Rightarrow> recordSource" where
  "backupAfter m previous = (case mutatorBackup m of Some b \<Rightarrow> b | None \<Rightarrow> previous)"

definition applyUpdates ::
  "('n, 'd, 'ns, 'p) collaborators \<Rightarrow> ('n, 'd, 'ns, 'p) publishQueue \<times> string list
     \<Rightarrow> (('n, 'd, 'ns, 'p) publishQueue \<times> string list) outcome" where
  "applyUpdates env state =
     (let q = fst state in
      if pendingOptimisticUpdates q \<noteq> [] \<or>
         (pendingBackupRebase q \<and> appliedOptimisticUpdates q \<noteq> [])
      then
        (let m0 = \<lparr>mutatorBase = getSource (store q), mutatorSink = sourceCreate,
                    mutatorBackup = Some (backup q)\<rparr>
         in case (if pendingBackupRebase q \<and> appliedOptimisticUpdates q \<noteq> []
                  then rerunApplied env (appliedOptimisticUpdates q) (m0, snd state)
                  else Returned (m0, snd state)) of
              Thrown s1 \<Rightarrow> Thrown (q\<lparr>backup := backupAfter (fst s1) (backup q)\<rparr>, snd s1)
            | Returned s1 \<Rightarrow>
                (if pendingOptimisticUpdates q \<noteq> [] then
                   (case applyPending env (pendingOptimisticUpdates q)
                           (appliedOptimisticUpdates q) s1 of
                      (applied, Thrown s2) \<Rightarrow>
                        Thrown (q\<lparr>backup := backupAfter (fst s2) (backup q),
                                   appliedOptimisticUpdates := applied\<rparr>, snd s2)
                    | (applied, Returned s2) \<Rightarrow>
                        Returned (q\<lparr>backup := backupAfter (fst s2) (backup q),
                                     appliedOptimisticUpdates := applied,
                                     pendingOptimisticUpdates := [],
                                     store := publish (mutatorSink (fst s2)) (store q)\<rparr>, snd s2))
                 else
                   Returned (q\<lparr>backup := backupAfter (fst s1) (backup q),
                                store := publish (mutatorSink (fst s1)) (store q)\<rparr>, snd s1)))
      else Returned state)"

text \<open>The first step of \<open>run\<close>: the backup is published and replaced by a new source.\<close>

definition undoOptimistic :: "('n, 'd, 'ns, 'p) publishQueue \<Rightarrow> ('n, 'd, 'ns, 'p) publishQueue" where
  "undoOptimistic q =
     (if pendingBackupRebase q \<and> sourceSize (backup q) \<noteq> 0
      then q\<lparr>store := publish (backup q) (store q), backup := sourceCreate\<rparr>
      else q)"

text \<open>The hold on the collector after the updates have been applied.\<close>

definition reconcileGCHold ::
  "'ns marker \<Rightarrow> ('n, 'd, 'ns, 'p) publishQueue \<Rightarrow> ('n, 'd, 'ns, 'p) publishQueue" where
  "reconcileGCHold mark q =
     (if appliedOptimisticUpdates q \<noteq> [] then
        (if gcHold q = None
         then q\<lparr>gcHold := Some (fst (holdGC (store q))), store := snd (holdGC (store q))\<rparr>
         else q)
      else
        (case gcHold q of
           Some d \<Rightarrow> q\<lparr>store := dispose mark d (store q), gcHold := None\<rparr>
         | None \<Rightarrow> q))"

text \<open>
  \<open>run\<close>. A run that completes returns the owners \<open>notify\<close> gives; the model keeps with
  them the calls of subscription callbacks. A run that an exception leaves is \<open>Aborted\<close>.
  In both cases the queue is what the run left, and the log holds the errors reported by
  the guard.
\<close>

datatype ('n, 'd, 'ns) runReturn =
    Completed "('n, 'ns) operationDescriptor list"
      "(nat \<times> ('n, 'd, ('n, 'ns) operationDescriptor) snapshot) list"
  | Aborted

record ('n, 'd, 'ns, 'p) ran =
  queueAfter :: "('n, 'd, 'ns, 'p) publishQueue"
  reported :: "string list"
  returned :: "('n, 'd, 'ns) runReturn"

definition finishRun ::
  "('n, 'd, 'ns, 'p) collaborators \<Rightarrow> ('n, 'd, 'ns, 'p) publishQueue \<times> string list
     \<Rightarrow> ('n, 'd, 'ns, 'p) ran" where
  "finishRun env state =
     (let q5 = reconcileGCHold (markerOf env) ((fst state)\<lparr>pendingBackupRebase := False\<rparr>);
          n = notify (readerOf env) (recyclerOf env) (store q5)
      in \<lparr>queueAfter = q5\<lparr>store := notifiedStore n\<rparr>, reported = snd state,
           returned = Completed (updatedOwners n) (callbackCalls n)\<rparr>)"

definition run ::
  "('n, 'd, 'ns, 'p) collaborators \<Rightarrow> ('n, 'd, 'ns, 'p) publishQueue \<Rightarrow> ('n, 'd, 'ns, 'p) ran" where
  "run env q =
     (case commitData env (undoOptimistic q) of
        Thrown q' \<Rightarrow> \<lparr>queueAfter = q', reported = [], returned = Aborted\<rparr>
      | Returned q2 \<Rightarrow>
          (case applyUpdates env (commitUpdaters (q2, [])) of
             Thrown s \<Rightarrow> \<lparr>queueAfter = fst s, reported = snd s, returned = Aborted\<rparr>
           | Returned s \<Rightarrow> finishRun env s))"

section \<open>Notions used in the properties\<close>

text \<open>The source holds the unpublish sentinel at the DataID.\<close>

definition isUnpublished :: "recordSource \<Rightarrow> dataID \<Rightarrow> bool" where
  "isUnpublished source recordID =
     (sourceGet source recordID = Some (Rec UNPUBLISH_RECORD_SENTINEL))"

text \<open>
  What the target holds at a DataID agrees with what the source says about it: publishing
  the source's entry once more changes nothing there.
\<close>

definition settledAt :: "recordState option \<Rightarrow> recordState option \<Rightarrow> bool" where
  "settledAt sourceRecord targetRecord =
     (case sourceRecord of
        None \<Rightarrow> True
      | Some Tombstone \<Rightarrow> targetRecord = Some Tombstone
      | Some (Rec s) \<Rightarrow>
          if s = UNPUBLISH_RECORD_SENTINEL then targetRecord = None
          else (\<exists>t. targetRecord = Some (Rec t) \<and> recordUpdate t s = t))"


section \<open>Example values\<close>

text \<open>
  A small marker for the examples: a normalization selector is the DataID of its root,
  and the marker visits the root record and the records its linked fields point to, as
  far as the source holds them.
\<close>

definition holdsRecord :: "recordSource \<Rightarrow> dataID \<Rightarrow> bool" where
  "holdsRecord source recordID =
     (case sourceGet source recordID of Some (Rec r) \<Rightarrow> True | _ \<Rightarrow> False)"

definition linkedIDs :: "relayRecord \<Rightarrow> dataID list" where
  "linkedIDs r = List.map_filter (\<lambda>field. case snd field of LinkedRef t \<Rightarrow> Some t | _ \<Rightarrow> None) r"

definition visitLinked :: "dataID marker" where
  "visitLinked source rootID =
     (case sourceGet source rootID of
        Some (Rec r) \<Rightarrow> set (rootID # filter (holdsRecord source) (linkedIDs r))
      | _ \<Rightarrow> {})"

definition exampleSource :: recordSource where
  "exampleSource =
     [(''client:root'', Rec [(''__id'', ScalarString ''client:root''), (''me'', LinkedRef ''1'')]),
      (''1'', Rec [(''__id'', ScalarString ''1''), (''name'', ScalarString ''Alice'')]),
      (''2'', Rec [(''__id'', ScalarString ''2''), (''name'', ScalarString ''Bob'')]),
      (''3'', Tombstone)]"

definition exampleStore :: "(unit, string, unit, dataID) store" where
  "exampleStore = (storeCreate exampleSource Defer)\<lparr>roots := [(0, ''client:root'')], index := 1\<rparr>"

definition examplePublished :: recordSource where
  "examplePublished =
     [(''1'', Rec [(''__id'', ScalarString ''1''), (''age'', ScalarNumber 30)]),
      (''2'', Tombstone),
      (''4'', Rec [(''__id'', ScalarString ''4'')])]"

definition exampleUnpublish :: recordSource where
  "exampleUnpublish = [(''1'', Rec UNPUBLISH_RECORD_SENTINEL)]"

text \<open>
  A small reader for the examples: the fragment reads the name of the record's friend,
  and the materialized data is that name. Data trees are compared by structure here,
  which is what reference equality comes to once equal subtrees have been recycled.
\<close>

definition friendName :: "(unit, string) traversal" where
  "friendName source selector r =
     (case map_of r ''friend'' of
        Some (LinkedRef f) \<Rightarrow>
          (case sourceGet source f of
             Some (Rec friend) \<Rightarrow>
               (case map_of friend ''name'' of
                  Some (ScalarString n) \<Rightarrow> (DataObject n, False, {f})
                | _ \<Rightarrow> (DataObject [], True, {f}))
           | Some Tombstone \<Rightarrow> (DataNull, False, {f})
           | None \<Rightarrow> (DataUndefined, True, {f}))
      | _ \<Rightarrow> (DataObject [], True, {}))"

definition recycleEqual :: "string recycler" where
  "recycleEqual prevData nextData = (if nextData = prevData then prevData else nextData)"

definition friendSource :: recordSource where
  "friendSource =
     [(''1'', Rec [(''__id'', ScalarString ''1''), (''friend'', LinkedRef ''2'')]),
      (''2'', Rec [(''__id'', ScalarString ''2''), (''name'', ScalarString ''Bob'')]),
      (''3'', Rec [(''__id'', ScalarString ''3''), (''name'', ScalarString ''Bob'')])]"

definition friendSelector :: "unit readerSelector" where
  "friendSelector = \<lparr>dataID = ''1'', node = (), variables = []\<rparr>"

definition friendStore :: "(unit, string, string, dataID) store" where
  "friendStore =
     subscribe (read friendName friendSource friendSelector (Some ''FriendQuery'')) 7
       (storeCreate friendSource Defer)"

definition otherFriend :: recordSource where
  "otherFriend = [(''1'', Rec [(''friend'', LinkedRef ''3'')])]"

definition renamedFriend :: recordSource where
  "renamedFriend = [(''2'', Rec [(''name'', ScalarString ''Robert'')])]"

definition unrelatedRecord :: recordSource where
  "unrelatedRecord = [(''3'', Rec [(''name'', ScalarString ''Carol'')])]"

text \<open>
  A queue for the examples. In the examples a response is the record source it
  normalizes to, and the two proxy methods leave the mutator as it is.
\<close>

definition exampleCollaborators :: "(unit, string, dataID, recordSource) collaborators" where
  "exampleCollaborators =
     \<lparr> readerOf = read friendName, recyclerOf = recycleEqual, markerOf = visitLinked,
       normalizeRelayPayload = (\<lambda>selector response. Some response),
       proxyCommitPayload = (\<lambda>operation response m. Returned m),
       proxyPublishSource = (\<lambda>src fps m. Returned m) \<rparr>"

definition exampleOperation :: "(unit, dataID) operationDescriptor" where
  "exampleOperation = \<lparr>fragment = friendSelector, root = ''1''\<rparr>"

definition exampleQueue :: "(unit, string, dataID, recordSource) publishQueue" where
  "exampleQueue = queueCreate (storeCreate friendSource Defer) None"

text \<open>
  A store updater that renames record 2 (the sink gets the new field, the backup
  the field as it was), and updaters that throw at once.
\<close>

definition renameOptimistically :: effect where
  "renameOptimistically m =
     Returned (m\<lparr>mutatorSink :=
                   sourceSet (mutatorSink m) ''2'' [(''name'', ScalarString ''Opti'')],
                 mutatorBackup :=
                   map_option (\<lambda>b. sourceSet b ''2'' [(''name'', ScalarString ''Bob'')])
                     (mutatorBackup m)\<rparr>)"

definition throwingUpdater :: effect where
  "throwingUpdater m = Thrown m"

definition throwingSelectorUpdater :: "string selectorStoreUpdater" where
  "throwingSelectorUpdater selectorData m = Thrown m"

definition optimisticRename :: "(unit, string, dataID, recordSource) optimisticUpdate" where
  "optimisticRename = StoreUpdaterUpdate 1 renameOptimistically"

definition optimisticThrow :: "(unit, string, dataID, recordSource) optimisticUpdate" where
  "optimisticThrow = StoreUpdaterUpdate 2 throwingUpdater"

definition optimisticUnknown :: "(unit, string, dataID, recordSource) optimisticUpdate" where
  "optimisticUnknown = StoreUpdaterUpdate 3 throwingUpdater"

definition payloadThenSource :: "(unit, string, dataID, recordSource) publishQueue" where
  "payloadThenSource =
     commitSource unrelatedRecord
       (commitPayload exampleOperation None renamedFriend (Some throwingSelectorUpdater)
          exampleQueue)"

definition queuedRename :: "(unit, string, dataID, recordSource) publishQueue" where
  "queuedRename = exampleQueue\<lparr>pendingOptimisticUpdates := [optimisticRename]\<rparr>"

definition appliedAndPending :: "(unit, string, dataID, recordSource) publishQueue" where
  "appliedAndPending =
     exampleQueue\<lparr>pendingOptimisticUpdates := [optimisticThrow],
                  appliedOptimisticUpdates := [optimisticRename]\<rparr>"

text \<open>The example queue after the run that applies the optimistic rename.\<close>

definition afterRename :: "(unit, string, dataID, recordSource) publishQueue" where
  "afterRename =
     \<lparr> store =
         \<lparr> gcScheduler = Defer, hasScheduledGC = False, index = 0,
           recordSource =
             [(''1'', Rec [(''__id'', ScalarString ''1''), (''friend'', LinkedRef ''2'')]),
              (''2'', Rec [(''__id'', ScalarString ''2''), (''name'', ScalarString ''Opti'')]),
              (''3'', Rec [(''__id'', ScalarString ''3''), (''name'', ScalarString ''Bob'')])],
           roots = [], subscriptions = [], updatedRecordIDs = {}, gcHoldCounter = 1,
           shouldScheduleGC = False \<rparr>,
       handlerProvider = None,
       backup = [(''2'', Rec [(''name'', ScalarString ''Bob'')])],
       pendingBackupRebase = False, pendingData = [], pendingUpdaters = [],
       pendingOptimisticUpdates = [], appliedOptimisticUpdates = [optimisticRename],
       gcHold = Some HoldDisposable \<rparr>"

text \<open>
  Two conditions under which nothing but a user's updater can throw during a run: the
  proxy and the normalizer return for every argument, and the queued payloads carry
  neither field payloads nor an updater.
\<close>

definition proxiesReturn :: "('n, 'd, 'ns, 'p) collaborators \<Rightarrow> bool" where
  "proxiesReturn env =
     ((\<forall>operation response m. \<exists>m'. proxyCommitPayload env operation response m = Returned m') \<and>
      (\<forall>src fps m. \<exists>m'. proxyPublishSource env src fps m = Returned m') \<and>
      (\<forall>selector response. normalizeRelayPayload env selector response \<noteq> None))"

fun plainData :: "('n, 'd, 'ns) dataToCommit \<Rightarrow> bool" where
  "plainData (SourceData src) = True"
| "plainData (PayloadData fps operation src updater) =
     ((fps = None \<or> fps = Some []) \<and> updater = None)"

definition throwingQueue :: "(unit, string, dataID, recordSource) publishQueue" where
  "throwingQueue =
     (commitUpdate (7, throwingUpdater) exampleQueue)
       \<lparr>pendingOptimisticUpdates := [optimisticThrow]\<rparr>"

text \<open>The target after a source has been published onto it.\<close>

definition publishedOnto :: "recordSource \<Rightarrow> recordSource \<Rightarrow> recordSource" where
  "publishedOnto target src = fst (updateTargetFromSource target src {})"

text \<open>
  Modelled from the spec: the invariant of RelayRecordSourceMutator, which is not among
  the source files. "A mutator never writes to the base source directly. The backup, if
  accumulated across multiple mutators sharing the same base, is a precise negative
  sufficient to undo the combined writes [...] by re-publishing it onto the store."
  \<open>undone m\<close> is the source that results when the sink of the mutator and then its backup
  are published onto its base. An optimistic update keeps the negative of the source
  \<open>original\<close> when running it on a mutator with a backup, whose undoing gives back every
  entry of \<open>original\<close>, leaves the base alone and leaves a backup whose undoing still gives
  back every entry of \<open>original\<close>.
\<close>

definition undone :: "mutator \<Rightarrow> recordSource" where
  "undone m =
     publishedOnto (publishedOnto (mutatorBase m) (mutatorSink m)) (backupAfter m [])"

definition keepsNegative ::
  "('n, 'd, 'ns, 'p) collaborators \<Rightarrow> recordSource \<Rightarrow> ('n, 'd, 'ns, 'p) optimisticUpdate
     \<Rightarrow> bool" where
  "keepsNegative env original u =
     (\<forall>m lg m' lg'.
        mutatorBackup m \<noteq> None \<and>
        (\<forall>recordID. sourceGet (undone m) recordID = sourceGet original recordID) \<and>
        applyOptimisticUpdate env u (m, lg) = Returned (m', lg') \<longrightarrow>
        mutatorBase m' = mutatorBase m \<and> mutatorBackup m' \<noteq> None \<and>
        (\<forall>recordID. sourceGet (undone m') recordID = sourceGet original recordID))"

text \<open>
  A series of optimistic updates: batches of \<open>applyUpdate\<close> calls, each batch followed by
  \<open>run\<close>. The result is \<open>None\<close> when a call throws.
\<close>

fun applyAll ::
  "('n, 'd, 'ns, 'p) optimisticUpdate list \<Rightarrow> ('n, 'd, 'ns, 'p) publishQueue
     \<Rightarrow> ('n, 'd, 'ns, 'p) publishQueue option" where
  "applyAll [] q = Some q"
| "applyAll (u # us) q =
     (case applyUpdate u q of Thrown q' \<Rightarrow> None | Returned q' \<Rightarrow> applyAll us q')"

definition applyThenRun ::
  "('n, 'd, 'ns, 'p) collaborators \<Rightarrow> ('n, 'd, 'ns, 'p) optimisticUpdate list
     \<Rightarrow> ('n, 'd, 'ns, 'p) publishQueue \<Rightarrow> ('n, 'd, 'ns, 'p) publishQueue option" where
  "applyThenRun env us q =
     (case applyAll us q of
        None \<Rightarrow> None
      | Some q' \<Rightarrow>
          (if returned (run env q') = Aborted then None else Some (queueAfter (run env q'))))"

fun optimisticSeries ::
  "('n, 'd, 'ns, 'p) collaborators \<Rightarrow> ('n, 'd, 'ns, 'p) optimisticUpdate list list
     \<Rightarrow> ('n, 'd, 'ns, 'p) publishQueue \<Rightarrow> ('n, 'd, 'ns, 'p) publishQueue option" where
  "optimisticSeries env [] q = Some q"
| "optimisticSeries env (us # batches) q =
     (case applyThenRun env us q of
        None \<Rightarrow> None
      | Some q' \<Rightarrow> optimisticSeries env batches q')"

text \<open>
  The state of a queue between the runs of such a series, for the source \<open>original\<close> the
  store held at the start: nothing but optimistic updates is queued, no collection waits
  for the hold to end, the pending updates keep the negative, and publishing the backup
  onto the store's source gives back every entry of \<open>original\<close>.
\<close>

definition betweenRuns ::
  "('n, 'd, 'ns, 'p) collaborators \<Rightarrow> recordSource \<Rightarrow> ('n, 'd, 'ns, 'p) publishQueue \<Rightarrow> bool" where
  "betweenRuns env original q =
     (\<not> pendingBackupRebase q \<and> pendingData q = [] \<and> pendingUpdaters q = [] \<and>
      (gcHold q = None \<or> gcHold q = Some HoldDisposable) \<and>
      \<not> shouldScheduleGC (store q) \<and>
      (\<forall>u \<in> set (pendingOptimisticUpdates q). keepsNegative env original u) \<and>
      (\<forall>recordID. sourceGet (publishedOnto (recordSource (store q)) (backup q)) recordID =
                     sourceGet original recordID))"

text \<open>
  The optimistic rename of the examples, written so that it acts only on the mutator it
  is meant for.
\<close>

definition renameOnce :: effect where
  "renameOnce m =
     (if mutatorBase m = friendSource \<and> mutatorSink m = [] \<and> mutatorBackup m = Some []
      then renameOptimistically m else Returned m)"

definition optimisticRenameOnce :: "(unit, string, dataID, recordSource) optimisticUpdate" where
  "optimisticRenameOnce = StoreUpdaterUpdate 4 renameOnce"

text \<open>
  Modelled from the spec: RelayReferenceMarker is not among the source files. The spec:
  "ReferenceMarker adds every dataID visited to an out-parameter set". A marker for the
  examples that does so: it adds the root it is given and the DataIDs the root record
  links to, whether or not the source holds a record for them.
\<close>

definition markVisited :: "dataID marker" where
  "markVisited source rootID =
     (case sourceGet source rootID of
        Some (Rec r) \<Rightarrow> set (rootID # linkedIDs r)
      | _ \<Rightarrow> {rootID})"

text \<open>The example store after a selector is retained whose root the source does not hold.\<close>

definition unfetchedRetained :: "(unit, string, unit, dataID) store" where
  "unfetchedRetained = snd (retain ''4'' exampleStore)"





section \<open>Properties of the store\<close>

subsection \<open>The hold counter\<close>

lemma gc_gcHoldCounter: "gcHoldCounter (gc mark st) = gcHoldCounter st"
  by (simp add: gc_def Let_def)

lemma scheduleGC_gcHoldCounter: "gcHoldCounter (scheduleGC mark st) = gcHoldCounter st"
  by (simp add: scheduleGC_def gc_gcHoldCounter split: scheduler.split)

lemma runScheduledGC_gcHoldCounter: "gcHoldCounter (runScheduledGC mark st) = gcHoldCounter st"
  by (simp add: runScheduledGC_def gc_gcHoldCounter)

lemma dispose_gcHoldCounter:
  "gcHoldCounter (dispose mark d st) =
     (if d = HoldDisposable \<and> gcHoldCounter st > 0 then gcHoldCounter st - 1
      else gcHoldCounter st)"
  by (cases d) (simp_all add: Let_def scheduleGC_gcHoldCounter)

lemma gcStep_nonneg: "0 \<le> gcHoldCounter st \<Longrightarrow> 0 \<le> gcHoldCounter (gcStep mark op st)"
  by (cases op)
     (simp_all add: holdGC_def dispose_gcHoldCounter retain_def runScheduledGC_gcHoldCounter)

lemma gcRun_nonneg: "0 \<le> gcHoldCounter st \<Longrightarrow> 0 \<le> gcHoldCounter (gcRun mark ops st)"
  unfolding gcRun_def
  by (induction ops arbitrary: st) (simp_all add: gcStep_nonneg)

lemma dispose_hold_zero: "gcHoldCounter st = 0 \<Longrightarrow> dispose mark HoldDisposable st = st"
  by simp

text \<open>
  C9. The hold counter is a JavaScript number, modelled as an integer, so that it could
  go below zero if the code let it. In every store \<open>st\<close> reached from a freshly
  constructed store by any sequence of \<open>holdGC()\<close> and \<open>retain()\<close> calls, disposals of
  any disposable (the same one any number of times) and firings of the scheduler, the
  counter is at least zero; and disposing a hold when the counter is zero leaves the
  store exactly as it is.
\<close>

theorem gcHoldCounter_never_negative:
  assumes "st = gcRun mark ops (storeCreate source sched)"
  shows "0 \<le> gcHoldCounter st \<and>
         (gcHoldCounter st = 0 \<longrightarrow> dispose mark HoldDisposable st = st)"
proof
  have "0 \<le> gcHoldCounter (storeCreate source sched :: ('a, 'b, 'c, 'd) store)"
    by (simp add: storeCreate_def)
  then show "0 \<le> gcHoldCounter st"
    unfolding assms by (rule gcRun_nonneg)
next
  show "gcHoldCounter st = 0 \<longrightarrow> dispose mark HoldDisposable st = st"
    by simp
qed

theorem gcHoldCounter_never_negative_witness:
  "gcHoldCounter (gcRun (\<lambda>source selector. {selector})
      [CallHoldGC, CallDispose HoldDisposable, CallDispose HoldDisposable]
      (storeCreate [] Defer :: (unit, unit, unit, dataID) store)) = 0 \<and>
   dispose (\<lambda>source selector. {selector}) HoldDisposable
     (gcRun (\<lambda>source selector. {selector})
        [CallHoldGC, CallDispose HoldDisposable, CallDispose HoldDisposable]
        (storeCreate [] Defer :: (unit, unit, unit, dataID) store))
     = gcRun (\<lambda>source selector. {selector})
        [CallHoldGC, CallDispose HoldDisposable, CallDispose HoldDisposable]
        (storeCreate [] Defer)"
  using gcHoldCounter_never_negative
    [OF refl, of "\<lambda>source selector. {selector}"
       "[CallHoldGC, CallDispose HoldDisposable, CallDispose HoldDisposable]" "[]" Defer]
  by (simp add: gcRun_def holdGC_def storeCreate_def Let_def)

subsection \<open>Garbage collection\<close>

lemma evictUnreferenced_filter:
  "evictUnreferenced references ids source =
     filter (\<lambda>p. fst p \<in> set ids \<longrightarrow> fst p \<in> references) source"
  unfolding evictUnreferenced_def
proof (induction ids arbitrary: source)
  case Nil
  show ?case by simp
next
  case (Cons i ids)
  show ?case
    by (auto simp add: Cons.IH sourceRemove_def AList.delete_eq intro!: filter_cong)
qed

lemma evict_own_ids:
  "evictUnreferenced references (getRecordIDs source) source =
     filter (\<lambda>p. fst p \<in> references) source"
  unfolding evictUnreferenced_filter getRecordIDs_def
  by (rule filter_cong) auto

lemma gc_recordSource:
  "recordSource (gc mark st) = filter (\<lambda>p. fst p \<in> markRoots mark st) (recordSource st)"
  by (simp add: gc_def Let_def evict_own_ids sourceClear_def)

lemma fold_union_marks:
  "fold (\<lambda>(i, selector) references. references \<union> f selector) rs acc =
     acc \<union> (\<Union>(i, selector) \<in> set rs. f selector)"
  by (induction rs arbitrary: acc) auto

lemma markRoots_iff:
  "recordID \<in> markRoots mark st \<longleftrightarrow>
     (\<exists>(i, selector) \<in> set (roots st). recordID \<in> mark (recordSource st) selector)"
  by (auto simp: markRoots_def fold_union_marks)

text \<open>
  C3. \<open>__gc()\<close> keeps exactly the entries of the source whose DataID the marker reaches
  from some retained root selector, and keeps them as they are. So a DataID is present
  afterwards iff it was present before and is reached: the collector removes entries and
  adds none, and a DataID that is reached but that the source does not hold is not
  present afterwards. When the marker reaches only DataIDs the source holds, a DataID is
  present afterwards iff it is reached from some retained root selector. With no roots,
  or with nothing marked, the source is cleared.
\<close>

theorem gc_keeps_exactly_marked:
  "recordSource (gc mark st) =
      filter (\<lambda>entry. \<exists>(i, selector) \<in> set (roots st).
                 fst entry \<in> mark (recordSource st) selector)
        (recordSource st) \<and>
   (\<forall>recordID. recordID \<in> set (getRecordIDs (recordSource (gc mark st))) \<longleftrightarrow>
      recordID \<in> set (getRecordIDs (recordSource st)) \<and>
      (\<exists>(i, selector) \<in> set (roots st). recordID \<in> mark (recordSource st) selector)) \<and>
   ((\<forall>(i, selector) \<in> set (roots st).
        mark (recordSource st) selector \<subseteq> set (getRecordIDs (recordSource st))) \<longrightarrow>
    (\<forall>recordID. recordID \<in> set (getRecordIDs (recordSource (gc mark st))) \<longleftrightarrow>
      (\<exists>(i, selector) \<in> set (roots st). recordID \<in> mark (recordSource st) selector))) \<and>
   (roots st = [] \<or> markRoots mark st = {} \<longrightarrow> recordSource (gc mark st) = [])"
proof (intro conjI)
  show "recordSource (gc mark st) =
      filter (\<lambda>entry. \<exists>(i, selector) \<in> set (roots st).
                 fst entry \<in> mark (recordSource st) selector)
        (recordSource st)"
    by (simp add: gc_recordSource markRoots_iff)
  then show "\<forall>recordID. recordID \<in> set (getRecordIDs (recordSource (gc mark st))) \<longleftrightarrow>
      recordID \<in> set (getRecordIDs (recordSource st)) \<and>
      (\<exists>(i, selector) \<in> set (roots st). recordID \<in> mark (recordSource st) selector)"
    by (auto simp: getRecordIDs_def)
  then show "(\<forall>(i, selector) \<in> set (roots st).
        mark (recordSource st) selector \<subseteq> set (getRecordIDs (recordSource st))) \<longrightarrow>
    (\<forall>recordID. recordID \<in> set (getRecordIDs (recordSource (gc mark st))) \<longleftrightarrow>
      (\<exists>(i, selector) \<in> set (roots st). recordID \<in> mark (recordSource st) selector))"
    by blast
  show "roots st = [] \<or> markRoots mark st = {} \<longrightarrow> recordSource (gc mark st) = []"
    by (auto simp: gc_recordSource markRoots_def)
qed

lemma visitLinked_example:
  "visitLinked (recordSource exampleStore) ''client:root'' = {''client:root'', ''1''}"
  by (simp add: visitLinked_def exampleStore_def storeCreate_def exampleSource_def
        sourceGet_def linkedIDs_def holdsRecord_def)

theorem gc_keeps_exactly_marked_witness:
  "visitLinked (recordSource exampleStore) ''client:root''
     \<subseteq> set (getRecordIDs (recordSource exampleStore)) \<and>
   set (getRecordIDs (recordSource (gc visitLinked exampleStore))) = {''client:root'', ''1''} \<and>
   recordSource (gc visitLinked exampleStore) = take 2 exampleSource \<and>
   recordSource (gc visitLinked (exampleStore\<lparr>roots := []\<rparr>)) = []"
proof -
  have ids: "getRecordIDs (recordSource exampleStore) = [''client:root'', ''1'', ''2'', ''3'']"
    by (simp add: exampleStore_def storeCreate_def exampleSource_def getRecordIDs_def)
  have rts: "roots exampleStore = [(0, ''client:root'')]"
    by (simp add: exampleStore_def)
  have src: "recordSource exampleStore = exampleSource"
    by (simp add: exampleStore_def storeCreate_def)
  have kept: "recordSource (gc visitLinked exampleStore) = take 2 exampleSource"
    using gc_keeps_exactly_marked [of visitLinked exampleStore]
    by (simp add: rts visitLinked_example) (simp add: src exampleSource_def)
  have cleared: "recordSource (gc visitLinked (exampleStore\<lparr>roots := []\<rparr>)) = []"
    using gc_keeps_exactly_marked [of visitLinked "exampleStore\<lparr>roots := []\<rparr>"]
    by simp
  show ?thesis
    using kept cleared
    by (simp add: visitLinked_example ids) (simp add: exampleSource_def getRecordIDs_def)
qed

text \<open>
  The claim as stated fails for a retained selector whose root the source does not hold:
  the marker adds the DataID of the root, which is so reached from a retained root
  selector, and the DataID is not present after the collection.
\<close>

theorem gc_keeps_exactly_marked_counterexample:
  "roots unfetchedRetained = [(0, ''client:root''), (1, ''4'')] \<and>
   sourceGet (recordSource unfetchedRetained) ''4'' = None \<and>
   ''4'' \<in> markVisited (recordSource unfetchedRetained) ''4'' \<and>
   ''4'' \<in> markRoots markVisited unfetchedRetained \<and>
   ''4'' \<notin> set (getRecordIDs (recordSource (gc markVisited unfetchedRetained))) \<and>
   getRecordIDs (recordSource (gc markVisited unfetchedRetained)) = [''client:root'', ''1'']"
  by (simp add: unfetchedRetained_def retain_def exampleStore_def storeCreate_def
        exampleSource_def markVisited_def markRoots_def gc_def Let_def evictUnreferenced_def
        getRecordIDs_def sourceGet_def sourceRemove_def sourceClear_def linkedIDs_def
        List.map_filter_simps)

subsection \<open>Publishing a source twice\<close>

lemma update_swap_list:
  "k \<noteq> k' \<Longrightarrow> k \<in> fst ` set al \<Longrightarrow>
     AList.update k v (AList.update k' v' al) = AList.update k' v' (AList.update k v al)"
  by (induction al) auto

lemma update_over_merge:
  "k \<in> fst ` set al \<Longrightarrow>
     AList.update k v (AList.merge al ps) =
       AList.merge (AList.update k v al) (filter (\<lambda>p. fst p \<noteq> k) ps)"
proof (induction ps)
  case Nil
  then show ?case by simp
next
  case (Cons p ps)
  show ?case
  proof (cases "fst p = k")
    case True
    then show ?thesis using Cons by simp
  next
    case False
    have "k \<in> fst ` set (AList.merge al ps)"
      using Cons.prems by (simp add: dom_merge)
    then have "AList.update k v (AList.update (fst p) (snd p) (AList.merge al ps)) =
        AList.update (fst p) (snd p) (AList.update k v (AList.merge al ps))"
      using False by (intro update_swap_list) auto
    then show ?thesis
      using False Cons by simp
  qed
qed

lemma merge_fixpoint:
  "(\<forall>k \<in> fst ` set ps. map_of al k = map_of ps k) \<Longrightarrow> AList.merge al ps = al"
proof (induction "length ps" arbitrary: ps rule: less_induct)
  case less
  show ?case
  proof (cases ps)
    case Nil
    then show ?thesis by simp
  next
    case (Cons p rest)
    obtain k v where p: "p = (k, v)" by (cases p)
    have kv: "map_of al k = Some v" using less.prems Cons p by simp
    then have kin: "k \<in> fst ` set al" by (metis domI dom_map_of_conv_image_fst)
    let ?rest = "filter (\<lambda>p. fst p \<noteq> k) rest"
    have "\<forall>k' \<in> fst ` set ?rest. map_of al k' = map_of ?rest k'"
    proof
      fix k' assume k': "k' \<in> fst ` set ?rest"
      then have ne: "k' \<noteq> k" by auto
      from k' have "k' \<in> fst ` set ps" using Cons by auto
      then have "map_of al k' = map_of ps k'" using less.prems by blast
      also have "\<dots> = map_of rest k'" using Cons p ne by simp
      also have "\<dots> = map_of ?rest k'" using ne
        by (induction rest) auto
      finally show "map_of al k' = map_of ?rest k'" .
    qed
    moreover have "length ?rest < length ps" using Cons
      by (simp add: le_imp_less_Suc)
    ultimately have rest_fixed: "AList.merge al ?rest = al" using less.hyps by blast
    have "AList.merge al ps = AList.update k v (AList.merge al rest)"
      using Cons p by simp
    also have "\<dots> = AList.merge (AList.update k v al) ?rest"
      using kin by (rule update_over_merge)
    also have "AList.update k v al = al" using kv by (rule update_triv)
    finally show ?thesis using rest_fixed by simp
  qed
qed

lemma recordUpdate_idem: "recordUpdate (recordUpdate t s) s = recordUpdate t s"
  unfolding recordUpdate_def
  by (rule merge_fixpoint)
     (auto simp add: merge_conv' map_add_def split: option.splits dest: weak_map_of_SomeI)

lemma recordUpdate_self: "recordUpdate s s = s"
  unfolding recordUpdate_def by (rule merge_fixpoint) simp

lemma delete_absent: "map_of al k = None \<Longrightarrow> AList.delete k al = al"
  by (induction al) (auto split: if_splits)

lemma step_settled:
  "settledAt (sourceGet source recordID) (sourceGet target recordID) \<Longrightarrow>
     updateTargetStep source recordID (target, updated) =
       (target, if isUnpublished source recordID then insert recordID updated else updated)"
  by (auto simp: settledAt_def updateTargetStep_def isUnpublished_def Let_def sourceGet_def
        sourceRemove_def sourceDelete_def sourceSet_def delete_absent update_triv
      split: option.splits recordState.splits if_splits)

lemma step_settles:
  "settledAt (sourceGet source recordID)
     (sourceGet (fst (updateTargetStep source recordID state)) recordID)"
  by (auto simp: settledAt_def updateTargetStep_def Let_def sourceGet_def
        sourceRemove_def sourceDelete_def sourceSet_def update_conv' delete_conv'
        recordUpdate_idem recordUpdate_self
      split: option.splits recordState.splits)

lemma step_other:
  "other \<noteq> recordID \<Longrightarrow>
     sourceGet (fst (updateTargetStep source recordID state)) other = sourceGet (fst state) other"
  by (auto simp: updateTargetStep_def Let_def sourceGet_def
        sourceRemove_def sourceDelete_def sourceSet_def update_conv' delete_conv'
      split: option.splits recordState.splits)

lemma fold_settles:
  "\<forall>recordID \<in> set ids.
     settledAt (sourceGet source recordID)
       (sourceGet (fst (fold (updateTargetStep source) ids state)) recordID)"
proof (induction ids arbitrary: state rule: rev_induct)
  case Nil
  show ?case by simp
next
  case (snoc x ids)
  show ?case
  proof
    fix recordID assume "recordID \<in> set (ids @ [x])"
    show "settledAt (sourceGet source recordID)
       (sourceGet (fst (fold (updateTargetStep source) (ids @ [x]) state)) recordID)"
    proof (cases "recordID = x")
      case True
      then show ?thesis by (simp add: step_settles)
    next
      case False
      with \<open>recordID \<in> set (ids @ [x])\<close> have "recordID \<in> set ids" by simp
      with snoc.IH False show ?thesis by (simp add: step_other)
    qed
  qed
qed

lemma fold_settled:
  "\<forall>recordID \<in> set ids. settledAt (sourceGet source recordID) (sourceGet target recordID) \<Longrightarrow>
     fold (updateTargetStep source) ids (target, updated) =
       (target, updated \<union> {recordID \<in> set ids. isUnpublished source recordID})"
proof (induction ids arbitrary: updated)
  case Nil
  show ?case by simp
next
  case (Cons x ids)
  then show ?case by (auto simp: step_settled)
qed

lemma updateTargetFromSource_again:
  "updateTargetFromSource (fst (updateTargetFromSource target source updated)) source updated' =
     (fst (updateTargetFromSource target source updated),
      updated' \<union> {recordID \<in> set (getRecordIDs source). isUnpublished source recordID})"
  unfolding updateTargetFromSource_def
  by (rule fold_settled) (rule fold_settles)

text \<open>
  C4, as amended. For every record source and every store, the canonical source after
  the second of two consecutive \<open>publish\<close> calls of that source is the one after the
  first. The record IDs the second call records (read off by starting it from an empty
  set of updated record IDs) are exactly the DataIDs at which the published source holds
  the unpublish sentinel: that branch marks the DataID without looking at the target. So
  the second call records nothing when the source holds no unpublish sentinel.
\<close>

theorem publish_twice:
  "recordSource (publish source (publish source st)) = recordSource (publish source st) \<and>
   updatedRecordIDs (publish source ((publish source st)\<lparr>updatedRecordIDs := {}\<rparr>)) =
     {recordID \<in> set (getRecordIDs source). isUnpublished source recordID} \<and>
   ((\<forall>recordID \<in> set (getRecordIDs source). \<not> isUnpublished source recordID) \<longrightarrow>
      updatedRecordIDs (publish source ((publish source st)\<lparr>updatedRecordIDs := {}\<rparr>)) = {})"
  by (simp add: publish_def Let_def updateTargetFromSource_again)

theorem publish_twice_witness:
  "\<not> isUnpublished examplePublished ''1'' \<and> \<not> isUnpublished examplePublished ''2'' \<and>
   \<not> isUnpublished examplePublished ''4'' \<and>
   getRecordIDs examplePublished = [''1'', ''2'', ''4''] \<and>
   recordSource (publish examplePublished (publish examplePublished exampleStore)) =
     recordSource (publish examplePublished exampleStore) \<and>
   updatedRecordIDs
     (publish examplePublished ((publish examplePublished exampleStore)\<lparr>updatedRecordIDs := {}\<rparr>))
     = {}"
  using publish_twice [of examplePublished exampleStore]
  by (simp add: isUnpublished_def examplePublished_def getRecordIDs_def sourceGet_def
        UNPUBLISH_RECORD_SENTINEL_def)

text \<open>
  The claim as stated fails for a source that unpublishes a record: the second publish
  records the DataID again, although the target no longer holds it.
\<close>

theorem publish_twice_counterexample:
  "updatedRecordIDs
     (publish exampleUnpublish ((publish exampleUnpublish exampleStore)\<lparr>updatedRecordIDs := {}\<rparr>))
     = {''1''} \<and>
   sourceGet (recordSource (publish exampleUnpublish exampleStore)) ''1'' = None"
  by (simp add: publish_def Let_def updateTargetFromSource_def updateTargetStep_def
        getRecordIDs_def sourceGet_def sourceRemove_def exampleUnpublish_def exampleStore_def
        storeCreate_def exampleSource_def)

subsection \<open>Notifying subscriptions\<close>

lemma step_updated_subset:
  "snd (updateTargetStep source recordID state) \<subseteq> insert recordID (snd state)"
  by (auto simp: updateTargetStep_def Let_def split: option.splits recordState.splits if_splits)

lemma fold_updated_subset:
  "snd (fold (updateTargetStep source) ids state) \<subseteq> snd state \<union> set ids"
proof (induction ids arbitrary: state)
  case Nil
  show ?case by simp
next
  case (Cons x ids)
  have "snd (fold (updateTargetStep source) ids (updateTargetStep source x state))
          \<subseteq> snd (updateTargetStep source x state) \<union> set ids"
    by (rule Cons.IH)
  with step_updated_subset [of source x state] show ?case by auto
qed

lemma publish_updated_subset:
  "updatedRecordIDs (publish source st) \<subseteq> updatedRecordIDs st \<union> set (getRecordIDs source)"
  using fold_updated_subset [of source "getRecordIDs source" "(recordSource st, updatedRecordIDs st)"]
  by (simp add: publish_def Let_def updateTargetFromSource_def)

lemma updateSubscription_no_overlap:
  "\<not> hasOverlappingIDs (snapshot sub) (updatedRecordIDs st) \<Longrightarrow>
     updateSubscription reader recycle st sub =
       \<lparr>updatedSubscription = sub, callbackCall = None, returnedOwner = None\<rparr>"
  by (simp add: updateSubscription_def Let_def)

lemma updateSubscription_overlap:
  assumes "hasOverlappingIDs (snapshot sub) (updatedRecordIDs st)"
    and "reread = reader (recordSource st) (readerSelector.truncate (snapshot sub))
                    (owner (snapshot sub))"
    and "next = reread\<lparr>data := recycle (data (snapshot sub)) (data reread)\<rparr>"
  shows "updateSubscription reader recycle st sub =
     \<lparr>updatedSubscription = sub\<lparr>snapshot := next\<rparr>,
       callbackCall = (if data next \<noteq> data (snapshot sub) then Some (callback sub, next) else None),
       returnedOwner = (if data next \<noteq> data (snapshot sub) then owner (snapshot sub) else None)\<rparr>"
  using assms by (simp add: updateSubscription_def Let_def)

lemma publish_outside_seen:
  assumes "seenRecords (snapshot sub) \<inter> updatedRecordIDs st = {}"
    and "seenRecords (snapshot sub) \<inter> set (getRecordIDs source) = {}"
  shows "updateSubscription reader recycle (publish source st) sub =
       \<lparr>updatedSubscription = sub, callbackCall = None, returnedOwner = None\<rparr>"
proof -
  have "seenRecords (snapshot sub) \<inter> updatedRecordIDs (publish source st) = {}"
    using assms publish_updated_subset [of source st] by blast
  then show ?thesis
    by (intro updateSubscription_no_overlap) (simp add: hasOverlappingIDs_def)
qed

text \<open>
  C2, as amended. For every subscription of the store: when the \<open>seenRecords\<close> of its
  snapshot do not meet the updated record IDs, \<open>notify\<close> leaves it alone (no read, no
  call, no owner). When they do, it is re-read with the same selector and owner, the data
  is recycled against the old data, and the subscription always gets this new snapshot;
  the callback is called, with the new snapshot, exactly when the recycled data is not
  reference-equal to the old data, and then the owner of the old snapshot is returned
  (appended to the list when it is not \<open>null\<close>). \<open>notify\<close> does this for each subscription
  in order, clears the updated record IDs and leaves the record source as it is. In
  particular, after publishing a source whose DataIDs are all outside a subscription's
  \<open>seenRecords\<close> (and with no earlier update pending on them), the subscription is left
  alone.
\<close>

theorem notify_updates_subscriptions:
  assumes "n = notify reader recycle st"
    and "us = map (updateSubscription reader recycle st) (subscriptions st)"
  shows
  "(\<forall>sub. \<not> hasOverlappingIDs (snapshot sub) (updatedRecordIDs st) \<longrightarrow>
      updateSubscription reader recycle st sub =
        \<lparr>updatedSubscription = sub, callbackCall = None, returnedOwner = None\<rparr>) \<and>
   (\<forall>sub reread next.
      hasOverlappingIDs (snapshot sub) (updatedRecordIDs st) \<and>
      reread = reader (recordSource st) (readerSelector.truncate (snapshot sub))
                 (owner (snapshot sub)) \<and>
      next = reread\<lparr>data := recycle (data (snapshot sub)) (data reread)\<rparr> \<longrightarrow>
      updateSubscription reader recycle st sub =
        \<lparr>updatedSubscription = sub\<lparr>snapshot := next\<rparr>,
          callbackCall =
            (if data next \<noteq> data (snapshot sub) then Some (callback sub, next) else None),
          returnedOwner =
            (if data next \<noteq> data (snapshot sub) then owner (snapshot sub) else None)\<rparr>) \<and>
   subscriptions (notifiedStore n) = map updatedSubscription us \<and>
   callbackCalls n = List.map_filter callbackCall us \<and>
   updatedOwners n = List.map_filter returnedOwner us \<and>
   updatedRecordIDs (notifiedStore n) = {} \<and>
   recordSource (notifiedStore n) = recordSource st \<and>
   (\<forall>sub source.
      seenRecords (snapshot sub) \<inter> updatedRecordIDs st = {} \<and>
      seenRecords (snapshot sub) \<inter> set (getRecordIDs source) = {} \<longrightarrow>
      updateSubscription reader recycle (publish source st) sub =
        \<lparr>updatedSubscription = sub, callbackCall = None, returnedOwner = None\<rparr>)"
  apply (intro conjI)
  subgoal by (simp add: updateSubscription_no_overlap)
  subgoal by (simp add: updateSubscription_def Let_def)
  subgoal by (simp add: assms notify_def Let_def)
  subgoal by (simp add: assms notify_def Let_def)
  subgoal by (simp add: assms notify_def Let_def)
  subgoal by (simp add: assms notify_def Let_def)
  subgoal by (simp add: assms notify_def Let_def)
  subgoal by (simp add: publish_outside_seen)
  done

lemma friendStore_subscriptions:
  "subscriptions friendStore =
     [\<lparr>callback = 7,
       snapshot = \<lparr>dataID = ''1'', node = (), variables = [], data = DataObject ''Bob'',
                   isMissingData = False, seenRecords = {''1'', ''2''},
                   owner = Some ''FriendQuery''\<rparr>\<rparr>]"
  by (simp add: friendStore_def subscribe_def storeCreate_def read_def friendSelector_def
        friendSource_def sourceGet_def friendName_def)

lemma friendStore_fields:
  "recordSource friendStore = friendSource" "updatedRecordIDs friendStore = {}"
  by (simp_all add: friendStore_def subscribe_def storeCreate_def)

lemma publish_otherFriend:
  "recordSource (publish otherFriend friendStore) =
     [(''1'', Rec [(''__id'', ScalarString ''1''), (''friend'', LinkedRef ''3'')]),
      (''2'', Rec [(''__id'', ScalarString ''2''), (''name'', ScalarString ''Bob'')]),
      (''3'', Rec [(''__id'', ScalarString ''3''), (''name'', ScalarString ''Bob'')])]"
  "updatedRecordIDs (publish otherFriend friendStore) = {''1''}"
  "subscriptions (publish otherFriend friendStore) = subscriptions friendStore"
  by (simp_all add: publish_def Let_def updateTargetFromSource_def updateTargetStep_def
        getRecordIDs_def sourceGet_def sourceSet_def recordUpdate_def friendStore_fields
        otherFriend_def friendSource_def UNPUBLISH_RECORD_SENTINEL_def)

text \<open>
  The claim as stated fails in the storing: a subscription that is re-read gets the new
  snapshot whether or not its data changed. Here the linked friend of record 1 changes to
  another record with the same name; the callback is not called and no owner is returned,
  but the subscription now holds a snapshot that has seen records 1 and 3.
\<close>

theorem notify_updates_subscriptions_counterexample:
  "callbackCalls (notify (read friendName) recycleEqual (publish otherFriend friendStore)) = [] \<and>
   updatedOwners (notify (read friendName) recycleEqual (publish otherFriend friendStore)) = [] \<and>
   map (\<lambda>sub. seenRecords (snapshot sub))
     (subscriptions (notifiedStore
        (notify (read friendName) recycleEqual (publish otherFriend friendStore))))
     = [{''1'', ''3''}] \<and>
   map (\<lambda>sub. seenRecords (snapshot sub)) (subscriptions (publish otherFriend friendStore))
     = [{''1'', ''2''}]"
  by (simp add: notify_def Let_def updateSubscription_def publish_otherFriend
        friendStore_subscriptions hasOverlappingIDs_def read_def readerSelector.truncate_def
        sourceGet_def friendName_def recycleEqual_def)


lemma publish_renamedFriend:
  "recordSource (publish renamedFriend friendStore) =
     [(''1'', Rec [(''__id'', ScalarString ''1''), (''friend'', LinkedRef ''2'')]),
      (''2'', Rec [(''__id'', ScalarString ''2''), (''name'', ScalarString ''Robert'')]),
      (''3'', Rec [(''__id'', ScalarString ''3''), (''name'', ScalarString ''Bob'')])]"
  "updatedRecordIDs (publish renamedFriend friendStore) = {''2''}"
  "subscriptions (publish renamedFriend friendStore) = subscriptions friendStore"
  by (simp_all add: publish_def Let_def updateTargetFromSource_def updateTargetStep_def
        getRecordIDs_def sourceGet_def sourceSet_def recordUpdate_def friendStore_fields
        renamedFriend_def friendSource_def UNPUBLISH_RECORD_SENTINEL_def)

lemma publish_unrelatedRecord:
  "updatedRecordIDs (publish unrelatedRecord friendStore) = {''3''}"
  "subscriptions (publish unrelatedRecord friendStore) = subscriptions friendStore"
  by (simp_all add: publish_def Let_def updateTargetFromSource_def updateTargetStep_def
        getRecordIDs_def sourceGet_def sourceSet_def recordUpdate_def friendStore_fields
        unrelatedRecord_def friendSource_def UNPUBLISH_RECORD_SENTINEL_def)

theorem notify_updates_subscriptions_witness:
  "seenRecords (snapshot (hd (subscriptions friendStore))) \<inter> updatedRecordIDs friendStore = {} \<and>
   seenRecords (snapshot (hd (subscriptions friendStore))) \<inter> set (getRecordIDs unrelatedRecord) = {} \<and>
   callbackCalls (notify (read friendName) recycleEqual (publish unrelatedRecord friendStore)) = [] \<and>
   hasOverlappingIDs (snapshot (hd (subscriptions friendStore)))
     (updatedRecordIDs (publish renamedFriend friendStore)) \<and>
   callbackCalls (notify (read friendName) recycleEqual (publish renamedFriend friendStore)) =
     [(7, \<lparr>dataID = ''1'', node = (), variables = [], data = DataObject ''Robert'',
            isMissingData = False, seenRecords = {''1'', ''2''},
            owner = Some ''FriendQuery''\<rparr>)] \<and>
   updatedOwners (notify (read friendName) recycleEqual (publish renamedFriend friendStore)) =
     [''FriendQuery''] \<and>
   updatedRecordIDs (notifiedStore
     (notify (read friendName) recycleEqual (publish renamedFriend friendStore))) = {}"
proof -
  let ?s = "hd (subscriptions friendStore)"
  let ?renamed = "publish renamedFriend friendStore"
  have d1: "seenRecords (snapshot ?s) \<inter> updatedRecordIDs friendStore = {}"
    by (simp add: friendStore_subscriptions friendStore_fields)
  have d2: "seenRecords (snapshot ?s) \<inter> set (getRecordIDs unrelatedRecord) = {}"
    by (simp add: friendStore_subscriptions unrelatedRecord_def getRecordIDs_def)
  have quiet:
    "updateSubscription (read friendName) recycleEqual (publish unrelatedRecord friendStore) ?s =
       \<lparr>updatedSubscription = ?s, callbackCall = None, returnedOwner = None\<rparr>"
    using notify_updates_subscriptions
      [where reader = "read friendName" and recycle = recycleEqual and st = friendStore,
       OF refl refl] d1 d2
    by blast
  have c3: "callbackCalls
      (notify (read friendName) recycleEqual (publish unrelatedRecord friendStore)) = []"
    using quiet
    by (simp add: notify_def Let_def publish_unrelatedRecord friendStore_subscriptions)
  have c4: "hasOverlappingIDs (snapshot ?s) (updatedRecordIDs ?renamed)"
    by (simp add: hasOverlappingIDs_def friendStore_subscriptions publish_renamedFriend)
  have fired:
    "updateSubscription (read friendName) recycleEqual ?renamed ?s =
       \<lparr>updatedSubscription =
          ?s\<lparr>snapshot :=
            \<lparr>dataID = ''1'', node = (), variables = [], data = DataObject ''Robert'',
              isMissingData = False, seenRecords = {''1'', ''2''},
              owner = Some ''FriendQuery''\<rparr>\<rparr>,
        callbackCall =
          Some (7, \<lparr>dataID = ''1'', node = (), variables = [], data = DataObject ''Robert'',
                    isMissingData = False, seenRecords = {''1'', ''2''},
                    owner = Some ''FriendQuery''\<rparr>),
        returnedOwner = Some ''FriendQuery''\<rparr>"
    by (simp add: updateSubscription_def Let_def publish_renamedFriend
          friendStore_subscriptions hasOverlappingIDs_def read_def readerSelector.truncate_def
          sourceGet_def friendName_def recycleEqual_def)
  have rest:
    "callbackCalls (notify (read friendName) recycleEqual ?renamed) =
       [(7, \<lparr>dataID = ''1'', node = (), variables = [], data = DataObject ''Robert'',
              isMissingData = False, seenRecords = {''1'', ''2''},
              owner = Some ''FriendQuery''\<rparr>)] \<and>
     updatedOwners (notify (read friendName) recycleEqual ?renamed) = [''FriendQuery''] \<and>
     updatedRecordIDs (notifiedStore (notify (read friendName) recycleEqual ?renamed)) = {}"
    using notify_updates_subscriptions
      [where reader = "read friendName" and recycle = recycleEqual and st = ?renamed,
       OF refl refl] fired
    by (simp add: publish_renamedFriend friendStore_subscriptions)
  show ?thesis
    using d1 d2 c3 c4 rest by simp
qed


section \<open>Properties of the reader\<close>

text \<open>
  C8. For every reader selector, every owner and every traversal of the selections: when
  the source holds a tombstone at the selector's root DataID, the data of the snapshot is
  \<open>null\<close>; when the source does not hold the root DataID, the data is \<open>undefined\<close> and
  \<open>isMissingData\<close> is true; in both cases the root DataID is among the \<open>seenRecords\<close>.
\<close>

theorem read_missing_root:
  assumes "snap = read traverse source selector own"
  shows
  "(sourceGet source (dataID selector) = Some Tombstone \<longrightarrow>
      data snap = DataNull \<and> dataID selector \<in> seenRecords snap) \<and>
   (sourceGet source (dataID selector) = None \<longrightarrow>
      data snap = DataUndefined \<and> isMissingData snap \<and> dataID selector \<in> seenRecords snap)"
  by (simp add: assms read_def)

text \<open>
  The two tests of the reader: the root ``4'' deleted in a new source, and the root ``4''
  never fetched.
\<close>

theorem read_missing_root_witness:
  "sourceGet (sourceDelete sourceCreate ''4'') ''4'' = Some Tombstone \<and>
   data (read friendName (sourceDelete sourceCreate ''4'')
           \<lparr>dataID = ''4'', node = (), variables = []\<rparr> (None :: unit option)) = DataNull \<and>
   seenRecords (read friendName (sourceDelete sourceCreate ''4'')
           \<lparr>dataID = ''4'', node = (), variables = []\<rparr> (None :: unit option)) = {''4''} \<and>
   sourceGet sourceCreate ''4'' = None \<and>
   data (read friendName sourceCreate
           \<lparr>dataID = ''4'', node = (), variables = []\<rparr> (None :: unit option)) = DataUndefined \<and>
   isMissingData (read friendName sourceCreate
           \<lparr>dataID = ''4'', node = (), variables = []\<rparr> (None :: unit option)) \<and>
   seenRecords (read friendName sourceCreate
           \<lparr>dataID = ''4'', node = (), variables = []\<rparr> (None :: unit option)) = {''4''}"
  using read_missing_root
    [where traverse = friendName and source = "sourceDelete sourceCreate ''4''"
       and selector = "\<lparr>dataID = ''4'', node = (), variables = []\<rparr>"
       and own = "None :: unit option", OF refl]
    read_missing_root
    [where traverse = friendName and source = sourceCreate
       and selector = "\<lparr>dataID = ''4'', node = (), variables = []\<rparr>"
       and own = "None :: unit option", OF refl]
  by (simp add: read_def sourceGet_def sourceDelete_def sourceCreate_def)

section \<open>Properties of the publish queue\<close>

subsection \<open>Reverting optimistic updates\<close>

text \<open>
  \<open>applyUpdate\<close> refuses an update that is pending or applied; \<open>applyUpdate\<close> and
  \<open>revertUpdate\<close> keep the two sets disjoint, and after every run that completes the
  pending set is empty. A run that an exception leaves in the second loop of
  \<open>_applyUpdates\<close> is different: the updates already run are in the applied set, and the
  pending set has not been cleared.
\<close>

lemma applyUpdate_disjoint:
  "set (pendingOptimisticUpdates q) \<inter> set (appliedOptimisticUpdates q) = {} \<Longrightarrow>
   applyUpdate u q = Returned q' \<Longrightarrow>
   set (pendingOptimisticUpdates q') \<inter> set (appliedOptimisticUpdates q') = {}"
  by (auto simp: applyUpdate_def setAdd_def split: if_splits)

lemma revertUpdate_disjoint:
  "set (pendingOptimisticUpdates q) \<inter> set (appliedOptimisticUpdates q) = {} \<Longrightarrow>
   set (pendingOptimisticUpdates (revertUpdate u q)) \<inter>
     set (appliedOptimisticUpdates (revertUpdate u q)) = {}"
  by (auto simp: revertUpdate_def setDelete_def)

lemma applyUpdates_pending_empty:
  "applyUpdates env s = Returned s' \<Longrightarrow> pendingOptimisticUpdates (fst s') = []"
  by (auto simp: applyUpdates_def Let_def split: if_splits outcome.splits prod.splits)

lemma reconcileGCHold_pending:
  "pendingOptimisticUpdates (reconcileGCHold mark q) = pendingOptimisticUpdates q"
  by (simp add: reconcileGCHold_def split: option.splits)

lemma run_completed_pending_empty:
  "returned (run env q) \<noteq> Aborted \<Longrightarrow> pendingOptimisticUpdates (queueAfter (run env q)) = []"
  by (auto simp: run_def finishRun_def Let_def reconcileGCHold_pending
        split: outcome.splits dest: applyUpdates_pending_empty)



text \<open>
  C10. Reverting an update that is neither pending nor applied returns the queue
  unchanged, in every field (and \<open>revertUpdate\<close> has no way to throw).
\<close>

theorem revertUpdate_unknown:
  assumes "u \<notin> set (pendingOptimisticUpdates q)" and "u \<notin> set (appliedOptimisticUpdates q)"
  shows "revertUpdate u q = q"
  using assms by (simp add: revertUpdate_def)

subsection \<open>The hold on the collector\<close>

lemma publish_gcHoldCounter: "gcHoldCounter (publish src st) = gcHoldCounter st"
  by (simp add: publish_def Let_def)

lemma undoOptimistic_hold:
  "gcHold (undoOptimistic q) = gcHold q \<and>
   gcHoldCounter (store (undoOptimistic q)) = gcHoldCounter (store q)"
  by (simp add: undoOptimistic_def publish_gcHoldCounter)

lemma commitDataLoop_hold:
  "commitDataLoop env todo finished q = Returned q' \<Longrightarrow>
     gcHold q' = gcHold q \<and> gcHoldCounter (store q') = gcHoldCounter (store q)"
proof (induction env todo finished q rule: commitDataLoop.induct)
  case (1 env finished q)
  then show ?case by simp
next
  case (2 env src todo finished q)
  then show ?case by (simp add: publish_gcHoldCounter)
next
  case (3 env fps operation src updater todo finished q)
  then show ?case
    by (auto simp: publish_gcHoldCounter split: outcome.splits)
qed

lemma commitData_hold:
  "commitData env q = Returned q' \<Longrightarrow>
     gcHold q' = gcHold q \<and> gcHoldCounter (store q') = gcHoldCounter (store q)"
  by (auto simp: commitData_def split: if_splits outcome.splits dest: commitDataLoop_hold)

lemma commitUpdaters_hold:
  "gcHold (fst (commitUpdaters s)) = gcHold (fst s) \<and>
   gcHoldCounter (store (fst (commitUpdaters s))) = gcHoldCounter (store (fst s))"
  by (simp add: commitUpdaters_def Let_def publish_gcHoldCounter)

lemma applyUpdates_hold:
  "applyUpdates env s = Returned s' \<Longrightarrow>
     gcHold (fst s') = gcHold (fst s) \<and>
     gcHoldCounter (store (fst s')) = gcHoldCounter (store (fst s))"
  by (auto simp: applyUpdates_def Let_def publish_gcHoldCounter
        split: if_splits outcome.splits prod.splits)

lemma notify_gcHoldCounter:
  "gcHoldCounter (notifiedStore (notify reader recycle st)) = gcHoldCounter st"
  by (simp add: notify_def Let_def)

lemma reconcileGCHold_applied:
  "appliedOptimisticUpdates (reconcileGCHold mark q) = appliedOptimisticUpdates q"
  by (simp add: reconcileGCHold_def split: option.splits)

lemma reconcileGCHold_iff:
  "gcHold (reconcileGCHold mark q) \<noteq> None \<longleftrightarrow> appliedOptimisticUpdates q \<noteq> []"
  by (simp add: reconcileGCHold_def holdGC_def split: option.splits)

lemma reconcileGCHold_cases:
  "(appliedOptimisticUpdates q \<noteq> [] \<and> gcHold q = None \<longrightarrow>
      gcHold (reconcileGCHold mark q) = Some HoldDisposable \<and>
      gcHoldCounter (store (reconcileGCHold mark q)) = gcHoldCounter (store q) + 1) \<and>
   (appliedOptimisticUpdates q \<noteq> [] \<and> gcHold q \<noteq> None \<longrightarrow>
      gcHold (reconcileGCHold mark q) = gcHold q \<and>
      gcHoldCounter (store (reconcileGCHold mark q)) = gcHoldCounter (store q)) \<and>
   (appliedOptimisticUpdates q = [] \<and> gcHold q = Some HoldDisposable \<longrightarrow>
      gcHoldCounter (store (reconcileGCHold mark q)) =
        (if gcHoldCounter (store q) > 0 then gcHoldCounter (store q) - 1
         else gcHoldCounter (store q))) \<and>
   (appliedOptimisticUpdates q = [] \<and> gcHold q = None \<longrightarrow>
      gcHoldCounter (store (reconcileGCHold mark q)) = gcHoldCounter (store q))"
  by (auto simp: reconcileGCHold_def holdGC_def dispose_gcHoldCounter simp del: dispose.simps)

lemma run_completed:
  assumes "returned (run env q) \<noteq> Aborted"
  obtains q2 s where "commitData env (undoOptimistic q) = Returned q2"
    and "applyUpdates env (commitUpdaters (q2, [])) = Returned s"
    and "run env q = finishRun env s"
  using assms by (auto simp: run_def split: outcome.splits)

text \<open>
  C7. After every run that completes, the queue holds a GC-hold disposable iff the set of
  applied optimistic updates is not empty. With applied updates and no hold before the
  run, the run takes one (the store's counter goes up by one); with applied updates and a
  hold, it keeps the hold; with no applied updates it disposes the hold it has (the
  counter goes down by one, unless it is zero already) and holds none.
\<close>

theorem run_reconciles_gcHold:
  assumes "r = run env q" and "returned r \<noteq> Aborted"
  shows
  "(gcHold (queueAfter r) \<noteq> None \<longleftrightarrow> appliedOptimisticUpdates (queueAfter r) \<noteq> []) \<and>
   (appliedOptimisticUpdates (queueAfter r) \<noteq> [] \<and> gcHold q = None \<longrightarrow>
      gcHold (queueAfter r) = Some HoldDisposable \<and>
      gcHoldCounter (store (queueAfter r)) = gcHoldCounter (store q) + 1) \<and>
   (appliedOptimisticUpdates (queueAfter r) \<noteq> [] \<and> gcHold q \<noteq> None \<longrightarrow>
      gcHold (queueAfter r) = gcHold q \<and>
      gcHoldCounter (store (queueAfter r)) = gcHoldCounter (store q)) \<and>
   (appliedOptimisticUpdates (queueAfter r) = [] \<and> gcHold q = Some HoldDisposable \<longrightarrow>
      gcHoldCounter (store (queueAfter r)) =
        (if gcHoldCounter (store q) > 0 then gcHoldCounter (store q) - 1
         else gcHoldCounter (store q))) \<and>
   (appliedOptimisticUpdates (queueAfter r) = [] \<and> gcHold q = None \<longrightarrow>
      gcHoldCounter (store (queueAfter r)) = gcHoldCounter (store q))"
proof -
  from assms obtain q2 s where
    cd: "commitData env (undoOptimistic q) = Returned q2" and
    au: "applyUpdates env (commitUpdaters (q2, [])) = Returned s" and
    fin: "r = finishRun env s"
    by (metis run_completed)
  let ?q4 = "(fst s)\<lparr>pendingBackupRebase := False\<rparr>"
  have hold: "gcHold ?q4 = gcHold q" and
       counter: "gcHoldCounter (store ?q4) = gcHoldCounter (store q)"
    using commitData_hold [OF cd] applyUpdates_hold [OF au]
      commitUpdaters_hold [of "(q2, [])"] undoOptimistic_hold [of q]
    by simp_all
  have after:
    "gcHold (queueAfter r) = gcHold (reconcileGCHold (markerOf env) ?q4)"
    "appliedOptimisticUpdates (queueAfter r) = appliedOptimisticUpdates ?q4"
    "gcHoldCounter (store (queueAfter r)) =
       gcHoldCounter (store (reconcileGCHold (markerOf env) ?q4))"
    by (simp_all add: fin finishRun_def Let_def notify_gcHoldCounter reconcileGCHold_applied)
  show ?thesis
    unfolding after
    using reconcileGCHold_iff [of "markerOf env" ?q4]
      reconcileGCHold_cases [of ?q4 "markerOf env"] hold counter
    by simp
qed


subsection \<open>The properties on the example queue\<close>

lemmas example_defs =
  exampleQueue_def queueCreate_def queuedRename_def appliedAndPending_def
  optimisticRename_def optimisticThrow_def optimisticUnknown_def

lemmas run_defs = run_def undoOptimistic_def commitData_def commitUpdaters_def applyUpdates_def
  finishRun_def reconcileGCHold_def Let_def applyWithGuard_def backupAfter_def
  sourceSize_def sourceCreate_def getSource_def holdGC_def

lemmas publish_eval = publish_def updateTargetFromSource_def updateTargetStep_def
  getRecordIDs_def sourceGet_def sourceSet_def sourceRemove_def sourceDelete_def
  recordUpdate_def UNPUBLISH_RECORD_SENTINEL_def

lemma applyUpdate_example: "applyUpdate optimisticRename exampleQueue = Returned queuedRename"
  by (simp add: example_defs applyUpdate_def setAdd_def)

lemma run_queuedRename:
  "queueAfter (run exampleCollaborators queuedRename) = afterRename"
  "returned (run exampleCollaborators queuedRename) = Completed [] []"
  "reported (run exampleCollaborators queuedRename) = []"
  by (simp_all add: run_defs example_defs exampleCollaborators_def setAdd_def
        renameOptimistically_def storeCreate_def afterRename_def publish_eval friendSource_def
        notify_def)

lemma run_revertAll:
  "returned (run exampleCollaborators (revertAll afterRename)) = Completed [] []"
  "recordSource (store (queueAfter (run exampleCollaborators (revertAll afterRename)))) =
     friendSource"
  "backup (queueAfter (run exampleCollaborators (revertAll afterRename))) = []"
  "gcHold (queueAfter (run exampleCollaborators (revertAll afterRename))) = None"
  "gcHoldCounter (store (queueAfter (run exampleCollaborators (revertAll afterRename)))) = 0"
  "appliedOptimisticUpdates (queueAfter (run exampleCollaborators (revertAll afterRename))) = []"
  by (simp_all add: run_defs revertAll_def exampleCollaborators_def
        afterRename_def publish_eval friendSource_def notify_def)





theorem revertUpdate_unknown_witness:
  "optimisticUnknown \<notin> set (pendingOptimisticUpdates appliedAndPending) \<and>
   optimisticUnknown \<notin> set (appliedOptimisticUpdates appliedAndPending) \<and>
   revertUpdate optimisticUnknown appliedAndPending = appliedAndPending"
proof -
  have a: "optimisticUnknown \<notin> set (pendingOptimisticUpdates appliedAndPending)"
    and b: "optimisticUnknown \<notin> set (appliedOptimisticUpdates appliedAndPending)"
    by (simp_all add: example_defs)
  show ?thesis
    using revertUpdate_unknown [OF a b] a b by simp
qed

theorem run_reconciles_gcHold_witness:
  "returned (run exampleCollaborators queuedRename) \<noteq> Aborted \<and>
   gcHold queuedRename = None \<and>
   appliedOptimisticUpdates (queueAfter (run exampleCollaborators queuedRename)) =
     [optimisticRename] \<and>
   gcHold (queueAfter (run exampleCollaborators queuedRename)) = Some HoldDisposable \<and>
   gcHoldCounter (store (queueAfter (run exampleCollaborators queuedRename))) = 1 \<and>
   returned (run exampleCollaborators (revertAll afterRename)) \<noteq> Aborted \<and>
   gcHold (revertAll afterRename) = Some HoldDisposable \<and>
   appliedOptimisticUpdates (queueAfter (run exampleCollaborators (revertAll afterRename))) = [] \<and>
   gcHold (queueAfter (run exampleCollaborators (revertAll afterRename))) = None \<and>
   gcHoldCounter (store (queueAfter (run exampleCollaborators (revertAll afterRename)))) = 0"
proof -
  have done1: "returned (run exampleCollaborators queuedRename) \<noteq> Aborted"
    and done2: "returned (run exampleCollaborators (revertAll afterRename)) \<noteq> Aborted"
    by (simp_all add: run_queuedRename run_revertAll)
  have before: "gcHold queuedRename = None" "gcHoldCounter (store queuedRename) = 0"
    "gcHold (revertAll afterRename) = Some HoldDisposable"
    "gcHoldCounter (store (revertAll afterRename)) = 1"
    by (simp_all add: example_defs storeCreate_def revertAll_def afterRename_def)
  have applied:
    "appliedOptimisticUpdates (queueAfter (run exampleCollaborators queuedRename)) =
       [optimisticRename]"
    by (simp add: run_queuedRename afterRename_def)
  have reverted:
    "appliedOptimisticUpdates (queueAfter (run exampleCollaborators (revertAll afterRename))) = []"
    by (simp add: run_revertAll)
  show ?thesis
    using run_reconciles_gcHold [OF refl done1] run_reconciles_gcHold [OF refl done2]
      done1 done2 before applied reverted
    by simp
qed

subsection \<open>An updater of a payload that throws\<close>

text \<open>
  C5 at its failing input. A payload committed with an updater that throws, and a source
  committed after it: \<open>_getSourceFromPayload\<close> calls the updater directly, so the exception
  leaves \<open>run\<close>. Nothing is logged, the payload and the source stay queued (the source is
  never published), the rebase flag stays set, and the next \<open>run\<close> meets the same payload
  and is left by the same exception.
\<close>

theorem run_aborts_when_payload_updater_throws:
  "pendingData payloadThenSource =
     [PayloadData None exampleOperation renamedFriend (Some throwingSelectorUpdater),
      SourceData unrelatedRecord] \<and>
   returned (run exampleCollaborators payloadThenSource) = Aborted \<and>
   reported (run exampleCollaborators payloadThenSource) = [] \<and>
   queueAfter (run exampleCollaborators payloadThenSource) = payloadThenSource \<and>
   recordSource (store (queueAfter (run exampleCollaborators payloadThenSource))) =
     friendSource \<and>
   returned (run exampleCollaborators
               (queueAfter (run exampleCollaborators payloadThenSource))) = Aborted"
proof -
  have aborted: "run exampleCollaborators payloadThenSource =
      \<lparr>queueAfter = payloadThenSource, reported = [], returned = Aborted\<rparr>"
    by (simp add: run_def payloadThenSource_def commitSource_def commitPayload_def
          exampleQueue_def queueCreate_def undoOptimistic_def commitData_def
          getSourceFromPayload_def Let_def throwingSelectorUpdater_def sourceSize_def
          sourceCreate_def)
  show ?thesis
    unfolding aborted
    by (simp add: aborted)
       (simp add: payloadThenSource_def commitSource_def commitPayload_def exampleQueue_def
          queueCreate_def storeCreate_def)
qed

subsection \<open>Updaters under the guard\<close>

lemma getSourceFromPayload_plain:
  "fps = None \<or> fps = Some [] \<Longrightarrow>
     getSourceFromPayload env q fps operation src None = Returned src"
  by (auto simp: getSourceFromPayload_def Let_def)

lemma commitDataLoop_plain:
  "\<forall>d \<in> set todo. plainData d \<Longrightarrow> \<exists>q'. commitDataLoop env todo finished q = Returned q'"
proof (induction env todo finished q rule: commitDataLoop.induct)
  case (1 env finished q)
  show ?case by simp
next
  case (2 env src todo finished q)
  then show ?case by simp
next
  case (3 env fps operation src updater todo finished q)
  then have plain: "fps = None \<or> fps = Some []" and none: "updater = None"
    and rest: "\<forall>d \<in> set todo. plainData d"
    by simp_all
  have got: "getSourceFromPayload env q fps operation src updater = Returned src"
    using plain none by (simp add: getSourceFromPayload_plain)
  show ?case
    using "3.IH" [OF got rest] by (simp add: got)
qed

lemma commitData_plain:
  "\<forall>d \<in> set (pendingData q). plainData d \<Longrightarrow> \<exists>q'. commitData env q = Returned q'"
  using commitDataLoop_plain [of "pendingData q" env "[]" q]
  by (auto simp: commitData_def)

lemma undoOptimistic_pendingData: "pendingData (undoOptimistic q) = pendingData q"
  by (simp add: undoOptimistic_def)

lemma applyOptimisticUpdate_returns:
  "proxiesReturn env \<Longrightarrow> \<exists>s'. applyOptimisticUpdate env u s = Returned s'"
proof (cases u)
  case (OperationUpdate i operation response updater)
  assume p: "proxiesReturn env"
  then obtain m' where committed:
    "proxyCommitPayload env operation response (fst s) = Returned m'"
    unfolding proxiesReturn_def by blast
  show ?thesis
  proof (cases response)
    case None
    then show ?thesis
      using OperationUpdate committed by (cases updater) simp_all
  next
    case (Some r)
    obtain src where "normalizeRelayPayload env (root operation) r = Some src"
      using p unfolding proxiesReturn_def by (metis option.exhaust)
    then show ?thesis
      using OperationUpdate committed Some by (cases updater) simp_all
  qed
next
  case (StoreUpdaterUpdate i f)
  then show ?thesis by simp
next
  case (SourceUpdate i src fps)
  assume "proxiesReturn env"
  then obtain m' where "proxyPublishSource env src fps (fst s) = Returned m'"
    unfolding proxiesReturn_def by blast
  then show ?thesis using SourceUpdate by simp
qed

lemma rerunApplied_returns:
  "proxiesReturn env \<Longrightarrow> \<exists>s'. rerunApplied env us s = Returned s'"
proof (induction us arbitrary: s)
  case Nil
  show ?case by simp
next
  case (Cons u us)
  from applyOptimisticUpdate_returns [OF Cons.prems, of u s]
  obtain s1 where "applyOptimisticUpdate env u s = Returned s1" by blast
  then show ?case using Cons.IH [OF Cons.prems, of s1] by simp
qed

lemma applyPending_returns:
  "proxiesReturn env \<Longrightarrow> \<exists>applied' s'. applyPending env us applied s = (applied', Returned s')"
proof (induction us arbitrary: applied s)
  case Nil
  show ?case by simp
next
  case (Cons u us)
  from applyOptimisticUpdate_returns [OF Cons.prems, of u s]
  obtain s1 where "applyOptimisticUpdate env u s = Returned s1" by blast
  then show ?case using Cons.IH [OF Cons.prems, of "setAdd u applied" s1] by simp
qed

lemma applyUpdates_returns:
  assumes "proxiesReturn env"
  shows "\<exists>s'. applyUpdates env s = Returned s'"
proof -
  let ?q = "fst s"
  let ?m0 = "\<lparr>mutatorBase = getSource (store ?q), mutatorSink = sourceCreate,
               mutatorBackup = Some (backup ?q)\<rparr>"
  let ?first =
    "if pendingBackupRebase ?q \<and> appliedOptimisticUpdates ?q \<noteq> []
     then rerunApplied env (appliedOptimisticUpdates ?q) (?m0, snd s)
     else Returned (?m0, snd s)"
  have "\<exists>s1. ?first = Returned s1"
  proof (cases "pendingBackupRebase ?q \<and> appliedOptimisticUpdates ?q \<noteq> []")
    case True
    then show ?thesis
      using rerunApplied_returns [OF assms, of "appliedOptimisticUpdates ?q" "(?m0, snd s)"]
      by simp
  next
    case False
    then show ?thesis by simp
  qed
  then obtain s1 where first: "?first = Returned s1" by blast
  obtain applied' s2 where second:
    "applyPending env (pendingOptimisticUpdates ?q) (appliedOptimisticUpdates ?q) s1 =
       (applied', Returned s2)"
    using applyPending_returns [OF assms] by blast
  show ?thesis
    unfolding applyUpdates_def Let_def
    by (simp only: first second outcome.case prod.case if_split) simp
qed

text \<open>
  The updaters queued by \<open>commitUpdate\<close> and the updaters of optimistic updates run under
  the guard: when the proxy and the normalizer return and the queued payloads carry no
  field payloads and no updater, \<open>run\<close> completes, whatever those updaters do.
\<close>

theorem guarded_updaters_never_abort:
  assumes "proxiesReturn env" and "\<forall>d \<in> set (pendingData q). plainData d"
  shows "returned (run env q) \<noteq> Aborted"
proof -
  obtain q2 where cd: "commitData env (undoOptimistic q) = Returned q2"
    using commitData_plain [of "undoOptimistic q" env] assms(2)
    by (auto simp: undoOptimistic_pendingData)
  obtain s where au: "applyUpdates env (commitUpdaters (q2, [])) = Returned s"
    using applyUpdates_returns [OF assms(1)] by blast
  show ?thesis
    by (simp add: run_def cd au finishRun_def Let_def)
qed

theorem guarded_updaters_never_abort_witness:
  "proxiesReturn exampleCollaborators \<and>
   pendingData throwingQueue = [] \<and>
   pendingUpdaters throwingQueue = [(7, throwingUpdater)] \<and>
   pendingOptimisticUpdates throwingQueue = [optimisticThrow] \<and>
   returned (run exampleCollaborators throwingQueue) = Completed [] [] \<and>
   reported (run exampleCollaborators throwingQueue) =
     [''RelayPublishQueue:commitUpdaters'', ''RelayPublishQueue:applyUpdates''] \<and>
   appliedOptimisticUpdates (queueAfter (run exampleCollaborators throwingQueue)) =
     [optimisticThrow]"
proof -
  have proxies: "proxiesReturn exampleCollaborators"
    by (simp add: proxiesReturn_def exampleCollaborators_def)
  have queued: "pendingData throwingQueue = []"
    "pendingUpdaters throwingQueue = [(7, throwingUpdater)]"
    "pendingOptimisticUpdates throwingQueue = [optimisticThrow]"
    by (simp_all add: throwingQueue_def commitUpdate_def example_defs setAdd_def)
  have plain: "\<forall>d \<in> set (pendingData throwingQueue). plainData d"
    by (simp add: queued)
  have ran:
    "returned (run exampleCollaborators throwingQueue) = Completed [] []"
    "reported (run exampleCollaborators throwingQueue) =
       [''RelayPublishQueue:commitUpdaters'', ''RelayPublishQueue:applyUpdates'']"
    "appliedOptimisticUpdates (queueAfter (run exampleCollaborators throwingQueue)) =
       [optimisticThrow]"
    by (simp_all add: run_defs throwingQueue_def commitUpdate_def example_defs setAdd_def
          exampleCollaborators_def throwingUpdater_def storeCreate_def publish_eval notify_def)
  show ?thesis
    using guarded_updaters_never_abort [OF proxies plain] proxies queued ran by simp
qed

subsection \<open>Undoing the optimistic updates\<close>

text \<open>
  What \<open>revertAll()\<close> followed by \<open>run()\<close> does to the store, when no payload, source or
  updater is queued and no collection is waiting for the hold to end: if the backup is
  not empty it is published, and nothing else is; the backup is then an empty source,
  both sets of optimistic updates are empty, the rebase flag is reset and no hold is kept.
\<close>

theorem revertAll_run_publishes_backup:
  assumes "pendingData q = []" and "pendingUpdaters q = []"
    and "gcHold q = None \<or> gcHold q = Some HoldDisposable"
    and "\<not> shouldScheduleGC (store q)"
    and "r = run env (revertAll q)"
  shows "returned r \<noteq> Aborted \<and> reported r = [] \<and>
         recordSource (store (queueAfter r)) =
           (if sourceSize (backup q) \<noteq> 0 then recordSource (publish (backup q) (store q))
            else recordSource (store q)) \<and>
         backup (queueAfter r) = [] \<and>
         pendingOptimisticUpdates (queueAfter r) = [] \<and>
         appliedOptimisticUpdates (queueAfter r) = [] \<and>
         \<not> pendingBackupRebase (queueAfter r) \<and>
         gcHold (queueAfter r) = None"
  using assms
  by (auto simp: run_def revertAll_def undoOptimistic_def commitData_def commitUpdaters_def
        applyUpdates_def finishRun_def reconcileGCHold_def Let_def notify_def sourceSize_def
        sourceCreate_def publish_def)


theorem revertAll_run_publishes_backup_witness:
  "pendingData afterRename = [] \<and> pendingUpdaters afterRename = [] \<and>
   gcHold afterRename = Some HoldDisposable \<and> \<not> shouldScheduleGC (store afterRename) \<and>
   sourceSize (backup afterRename) = 1 \<and>
   returned (run exampleCollaborators (revertAll afterRename)) = Completed [] [] \<and>
   recordSource (store (queueAfter (run exampleCollaborators (revertAll afterRename)))) =
     friendSource \<and>
   backup (queueAfter (run exampleCollaborators (revertAll afterRename))) = []"
proof -
  have a: "pendingData afterRename = []" and b: "pendingUpdaters afterRename = []"
    and c: "gcHold afterRename = None \<or> gcHold afterRename = Some HoldDisposable"
    and d: "\<not> shouldScheduleGC (store afterRename)"
    and e: "gcHold afterRename = Some HoldDisposable"
    and f: "sourceSize (backup afterRename) = 1"
    by (simp_all add: afterRename_def sourceSize_def)
  show ?thesis
    using revertAll_run_publishes_backup [OF a b c d refl, of exampleCollaborators]
      a b d e f run_revertAll
    by simp
qed

subsection \<open>A series of optimistic updates, undone\<close>

lemma step_fst_indep:
  "fst (updateTargetStep source recordID (target, updated)) =
   fst (updateTargetStep source recordID (target, updated'))"
  by (simp add: updateTargetStep_def Let_def split: option.splits recordState.splits)

lemma fold_fst_indep:
  "fst (fold (updateTargetStep source) ids (target, updated)) =
   fst (fold (updateTargetStep source) ids (target, updated'))"
proof (induction ids arbitrary: target updated updated')
  case Nil
  show ?case by simp
next
  case (Cons x ids)
  obtain t1 u1 where a: "updateTargetStep source x (target, updated) = (t1, u1)"
    by (cases "updateTargetStep source x (target, updated)")
  obtain t2 u2 where b: "updateTargetStep source x (target, updated') = (t2, u2)"
    by (cases "updateTargetStep source x (target, updated')")
  have "t1 = t2"
    using step_fst_indep [of source x target updated updated'] a b by simp
  then show ?case
    using Cons.IH [of t1 u1 u2] a b by simp
qed

lemma publish_recordSource:
  "recordSource (publish src st) = publishedOnto (recordSource st) src"
  by (simp add: publish_def Let_def publishedOnto_def updateTargetFromSource_def
        fold_fst_indep [of src _ _ "updatedRecordIDs st" "{}"])

lemma publishedOnto_empty: "publishedOnto target [] = target"
  by (simp add: publishedOnto_def updateTargetFromSource_def getRecordIDs_def)

lemma publish_shouldScheduleGC: "shouldScheduleGC (publish src st) = shouldScheduleGC st"
  by (simp add: publish_def Let_def)

lemma applyPending_keepsNegative:
  assumes "\<forall>u \<in> set us. keepsNegative env original u"
    and "mutatorBackup m \<noteq> None"
    and "\<forall>recordID. sourceGet (undone m) recordID = sourceGet original recordID"
    and "applyPending env us applied (m, lg) = (applied', Returned (m', lg'))"
  shows "mutatorBase m' = mutatorBase m \<and> mutatorBackup m' \<noteq> None \<and>
         (\<forall>recordID. sourceGet (undone m') recordID = sourceGet original recordID)"
  using assms
proof (induction us arbitrary: applied m lg)
  case Nil
  then show ?case by simp
next
  case (Cons u us)
  from Cons.prems(4) obtain m1 lg1 where
    one: "applyOptimisticUpdate env u (m, lg) = Returned (m1, lg1)" and
    rest: "applyPending env us (setAdd u applied) (m1, lg1) = (applied', Returned (m', lg'))"
    by (auto split: outcome.splits)
  have "keepsNegative env original u" using Cons.prems(1) by simp
  then have k: "mutatorBase m1 = mutatorBase m" "mutatorBackup m1 \<noteq> None"
    "\<forall>recordID. sourceGet (undone m1) recordID = sourceGet original recordID"
    unfolding keepsNegative_def using Cons.prems(2,3) one by blast+
  have "mutatorBase m' = mutatorBase m1 \<and> mutatorBackup m' \<noteq> None \<and>
         (\<forall>recordID. sourceGet (undone m') recordID = sourceGet original recordID)"
    using Cons.IH [OF _ k(2) k(3) rest] Cons.prems(1) by simp
  then show ?case using k(1) by simp
qed

lemma applyUpdate_betweenRuns:
  assumes "betweenRuns env original q" and "keepsNegative env original u"
    and "applyUpdate u q = Returned q'"
  shows "betweenRuns env original q'"
  using assms
  by (auto simp: betweenRuns_def applyUpdate_def setAdd_def split: if_splits)

lemma applyAll_betweenRuns:
  assumes "betweenRuns env original q" and "\<forall>u \<in> set us. keepsNegative env original u"
    and "applyAll us q = Some q'"
  shows "betweenRuns env original q'"
  using assms
proof (induction us arbitrary: q)
  case Nil
  then show ?case by simp
next
  case (Cons u us)
  from Cons.prems(3) obtain q1 where
    one: "applyUpdate u q = Returned q1" and rest: "applyAll us q1 = Some q'"
    by (auto split: outcome.splits)
  have "betweenRuns env original q1"
    using applyUpdate_betweenRuns [OF Cons.prems(1) _ one] Cons.prems(2) by simp
  then show ?case using Cons.IH [OF _ _ rest] Cons.prems(2) by simp
qed


lemma reconcileGCHold_quiet:
  assumes "gcHold q = None \<or> gcHold q = Some HoldDisposable"
    and "\<not> shouldScheduleGC (store q)"
  shows "recordSource (store (reconcileGCHold mark q)) = recordSource (store q) \<and>
         \<not> shouldScheduleGC (store (reconcileGCHold mark q)) \<and>
         (gcHold (reconcileGCHold mark q) = None \<or>
          gcHold (reconcileGCHold mark q) = Some HoldDisposable) \<and>
         backup (reconcileGCHold mark q) = backup q \<and>
         pendingBackupRebase (reconcileGCHold mark q) = pendingBackupRebase q \<and>
         pendingData (reconcileGCHold mark q) = pendingData q \<and>
         pendingUpdaters (reconcileGCHold mark q) = pendingUpdaters q \<and>
         pendingOptimisticUpdates (reconcileGCHold mark q) = pendingOptimisticUpdates q"
  using assms by (auto simp: reconcileGCHold_def holdGC_def Let_def split: if_splits)

lemma finishRun_quiet:
  assumes "gcHold q = None \<or> gcHold q = Some HoldDisposable"
    and "\<not> shouldScheduleGC (store q)"
  shows "recordSource (store (queueAfter (finishRun env (q, lg)))) = recordSource (store q) \<and>
         \<not> shouldScheduleGC (store (queueAfter (finishRun env (q, lg)))) \<and>
         (gcHold (queueAfter (finishRun env (q, lg))) = None \<or>
          gcHold (queueAfter (finishRun env (q, lg))) = Some HoldDisposable) \<and>
         backup (queueAfter (finishRun env (q, lg))) = backup q \<and>
         \<not> pendingBackupRebase (queueAfter (finishRun env (q, lg))) \<and>
         pendingData (queueAfter (finishRun env (q, lg))) = pendingData q \<and>
         pendingUpdaters (queueAfter (finishRun env (q, lg))) = pendingUpdaters q \<and>
         pendingOptimisticUpdates (queueAfter (finishRun env (q, lg))) =
           pendingOptimisticUpdates q"
proof -
  let ?q4 = "q\<lparr>pendingBackupRebase := False\<rparr>"
  have "gcHold ?q4 = None \<or> gcHold ?q4 = Some HoldDisposable"
    and "\<not> shouldScheduleGC (store ?q4)"
    using assms by simp_all
  from reconcileGCHold_quiet [OF this, of "markerOf env"]
  show ?thesis
    by (simp add: finishRun_def Let_def notify_def)
qed

lemma run_betweenRuns:
  assumes J: "betweenRuns env original q" and completed: "returned (run env q) \<noteq> Aborted"
  shows "betweenRuns env original (queueAfter (run env q))"
proof -
  from J have flag: "\<not> pendingBackupRebase q" and nodata: "pendingData q = []"
    and noupd: "pendingUpdaters q = []"
    and hold: "gcHold q = None \<or> gcHold q = Some HoldDisposable"
    and quiet: "\<not> shouldScheduleGC (store q)"
    and pend: "\<forall>u \<in> set (pendingOptimisticUpdates q). keepsNegative env original u"
    and neg: "\<forall>recordID. sourceGet (publishedOnto (recordSource (store q)) (backup q)) recordID =
                     sourceGet original recordID"
    unfolding betweenRuns_def by simp_all
  have start: "commitData env (undoOptimistic q) = Returned q"
    "commitUpdaters (q, []) = (q, [])"
    using flag nodata noupd by (simp_all add: undoOptimistic_def commitData_def commitUpdaters_def)
  show ?thesis
  proof (cases "pendingOptimisticUpdates q = []")
    case True
    then have "applyUpdates env (q, []) = Returned (q, [])"
      using flag by (simp add: applyUpdates_def)
    then have r: "run env q = finishRun env (q, [])"
      by (simp add: run_def start)
    show ?thesis
      unfolding r betweenRuns_def
      using finishRun_quiet [OF hold quiet, of env "[]"] nodata noupd neg True
      by simp
  next
    case False
    let ?m0 = "\<lparr>mutatorBase = getSource (store q), mutatorSink = sourceCreate,
                 mutatorBackup = Some (backup q)\<rparr>"
    obtain applied' res where ap:
      "applyPending env (pendingOptimisticUpdates q) (appliedOptimisticUpdates q) (?m0, []) =
         (applied', res)"
      by (cases "applyPending env (pendingOptimisticUpdates q) (appliedOptimisticUpdates q)
                   (?m0, [])")
    have au: "applyUpdates env (q, []) =
        (case res of
           Thrown s2 \<Rightarrow>
             Thrown (q\<lparr>backup := backupAfter (fst s2) (backup q),
                        appliedOptimisticUpdates := applied'\<rparr>, snd s2)
         | Returned s2 \<Rightarrow>
             Returned (q\<lparr>backup := backupAfter (fst s2) (backup q),
                          appliedOptimisticUpdates := applied',
                          pendingOptimisticUpdates := [],
                          store := publish (mutatorSink (fst s2)) (store q)\<rparr>, snd s2))"
      using False flag ap by (simp add: applyUpdates_def Let_def)
    obtain m2 lg2 where res: "res = Returned (m2, lg2)"
      using completed au by (cases res) (auto simp: run_def start)
    let ?q4 = "q\<lparr>backup := backupAfter m2 (backup q), appliedOptimisticUpdates := applied',
                   pendingOptimisticUpdates := [],
                   store := publish (mutatorSink m2) (store q)\<rparr>"
    have r: "run env q = finishRun env (?q4, lg2)"
      by (simp add: run_def start au res)
    have m0: "mutatorBackup ?m0 \<noteq> None"
      "\<forall>recordID. sourceGet (undone ?m0) recordID = sourceGet original recordID"
      using neg
      by (simp_all add: undone_def backupAfter_def sourceCreate_def publishedOnto_empty
            getSource_def)
    from applyPending_keepsNegative [OF pend m0 ap [unfolded res]]
    have m2: "mutatorBase m2 = recordSource (store q)" "mutatorBackup m2 \<noteq> None"
      "\<forall>recordID. sourceGet (undone m2) recordID = sourceGet original recordID"
      by (simp_all add: getSource_def)
    have neg4: "\<forall>recordID.
        sourceGet (publishedOnto (recordSource (store ?q4)) (backup ?q4)) recordID =
          sourceGet original recordID"
      using m2 by (auto simp: undone_def publish_recordSource backupAfter_def)
    have hold4: "gcHold ?q4 = None \<or> gcHold ?q4 = Some HoldDisposable"
      and quiet4: "\<not> shouldScheduleGC (store ?q4)"
      using hold quiet by (simp_all add: publish_shouldScheduleGC)
    show ?thesis
      unfolding r betweenRuns_def
      using finishRun_quiet [OF hold4 quiet4, of env lg2] nodata noupd neg4
      by simp
  qed
qed


lemma applyThenRun_betweenRuns:
  assumes "betweenRuns env original q" and "\<forall>u \<in> set us. keepsNegative env original u"
    and "applyThenRun env us q = Some q'"
  shows "betweenRuns env original q'"
proof -
  from assms(3) obtain qa where
    applied: "applyAll us q = Some qa" and
    completed: "returned (run env qa) \<noteq> Aborted" and
    after: "q' = queueAfter (run env qa)"
    by (auto simp: applyThenRun_def split: option.splits if_splits)
  have "betweenRuns env original qa"
    using applyAll_betweenRuns [OF assms(1,2) applied] .
  then show ?thesis
    unfolding after using completed by (rule run_betweenRuns)
qed

lemma optimisticSeries_betweenRuns:
  assumes "betweenRuns env original q"
    and "\<forall>us \<in> set batches. \<forall>u \<in> set us. keepsNegative env original u"
    and "optimisticSeries env batches q = Some q'"
  shows "betweenRuns env original q'"
  using assms
proof (induction batches arbitrary: q)
  case Nil
  then show ?case by simp
next
  case (Cons us batches)
  from Cons.prems(3) obtain q1 where
    one: "applyThenRun env us q = Some q1" and
    rest: "optimisticSeries env batches q1 = Some q'"
    by (auto split: option.splits)
  have "betweenRuns env original q1"
    using applyThenRun_betweenRuns [OF Cons.prems(1) _ one] Cons.prems(2) by simp
  then show ?case
    using Cons.IH [OF _ _ rest] Cons.prems(2) by simp
qed

lemma queueCreate_betweenRuns:
  "\<not> shouldScheduleGC st \<Longrightarrow> betweenRuns env (recordSource st) (queueCreate st provider)"
  by (simp add: betweenRuns_def queueCreate_def sourceCreate_def publishedOnto_empty)

text \<open>
  A series of optimistic updates, each batch of \<open>applyUpdate\<close> calls followed by a completed
  \<open>run()\<close>, on a queue created over a store with no collection waiting: if every update
  keeps the backup of the mutator a negative of the source the store held at the start,
  then \<open>revertAll()\<close> followed by \<open>run()\<close> completes, every entry of the store's source is
  again the entry it was at the start, and the backup and both sets of optimistic updates
  are empty. Whether an update keeps the negative is decided by RelayRecordSourceMutator,
  which is not among the source files; the hypothesis states it for the updates of the
  series.
\<close>

theorem optimistic_series_undone:
  assumes "\<not> shouldScheduleGC st"
    and "\<forall>us \<in> set batches. \<forall>u \<in> set us. keepsNegative env (recordSource st) u"
    and "optimisticSeries env batches (queueCreate st provider) = Some q"
    and "r = run env (revertAll q)"
  shows "returned r \<noteq> Aborted \<and>
         (\<forall>recordID. sourceGet (recordSource (store (queueAfter r))) recordID =
                        sourceGet (recordSource st) recordID) \<and>
         backup (queueAfter r) = [] \<and>
         pendingOptimisticUpdates (queueAfter r) = [] \<and>
         appliedOptimisticUpdates (queueAfter r) = []"
proof -
  have J: "betweenRuns env (recordSource st) q"
    using optimisticSeries_betweenRuns [OF queueCreate_betweenRuns [OF assms(1)] assms(2,3)] .
  then have nodata: "pendingData q = []" and noupd: "pendingUpdaters q = []"
    and hold: "gcHold q = None \<or> gcHold q = Some HoldDisposable"
    and quiet: "\<not> shouldScheduleGC (store q)"
    and neg: "\<forall>recordID. sourceGet (publishedOnto (recordSource (store q)) (backup q)) recordID =
                     sourceGet (recordSource st) recordID"
    unfolding betweenRuns_def by simp_all
  have undo: "returned r \<noteq> Aborted \<and>
         recordSource (store (queueAfter r)) =
           (if sourceSize (backup q) \<noteq> 0 then recordSource (publish (backup q) (store q))
            else recordSource (store q)) \<and>
         backup (queueAfter r) = [] \<and>
         pendingOptimisticUpdates (queueAfter r) = [] \<and>
         appliedOptimisticUpdates (queueAfter r) = []"
    using nodata noupd hold quiet assms(4)
    by (auto simp: run_def revertAll_def undoOptimistic_def commitData_def commitUpdaters_def
          applyUpdates_def finishRun_def reconcileGCHold_def Let_def notify_def sourceSize_def
          sourceCreate_def publish_def)
  have "recordSource (store (queueAfter r)) = publishedOnto (recordSource (store q)) (backup q)"
  proof (cases "sourceSize (backup q) = 0")
    case True
    then have "backup q = []" by (simp add: sourceSize_def)
    then show ?thesis using undo True by (simp add: publishedOnto_empty)
  next
    case False
    then show ?thesis using undo by (simp add: publish_recordSource)
  qed
  then show ?thesis using undo neg by simp
qed

lemma renameOnce_keepsNegative:
  "keepsNegative exampleCollaborators friendSource optimisticRenameOnce"
proof -
  have "publishedOnto (publishedOnto friendSource
            (sourceSet [] ''2'' [(''name'', ScalarString ''Opti'')]))
          (sourceSet [] ''2'' [(''name'', ScalarString ''Bob'')]) = friendSource"
    by (simp add: publishedOnto_def updateTargetFromSource_def updateTargetStep_def
          getRecordIDs_def sourceGet_def sourceSet_def recordUpdate_def friendSource_def
          UNPUBLISH_RECORD_SENTINEL_def Let_def)
  then show ?thesis
    by (auto simp: keepsNegative_def optimisticRenameOnce_def applyWithGuard_def
          renameOnce_def renameOptimistically_def undone_def backupAfter_def
        split: if_splits)
qed


lemma series_example:
  "optimisticSeries exampleCollaborators [[optimisticRenameOnce]] exampleQueue =
     Some (afterRename\<lparr>appliedOptimisticUpdates := [optimisticRenameOnce]\<rparr>)"
  by (simp add: applyThenRun_def applyUpdate_def run_defs example_defs exampleCollaborators_def
        setAdd_def optimisticRenameOnce_def renameOnce_def renameOptimistically_def
        storeCreate_def afterRename_def publish_eval friendSource_def notify_def)

text \<open>
  The series holding the one optimistic rename of the example queue: the rename keeps the
  negative, the store holds the new name after the series, and the old one after
  \<open>revertAll()\<close> and \<open>run()\<close>.
\<close>

theorem optimistic_series_undone_witness:
  "\<not> shouldScheduleGC (storeCreate friendSource Defer :: (unit, string, dataID) relayStore) \<and>
   keepsNegative exampleCollaborators friendSource optimisticRenameOnce \<and>
   optimisticSeries exampleCollaborators [[optimisticRenameOnce]] exampleQueue =
     Some (afterRename\<lparr>appliedOptimisticUpdates := [optimisticRenameOnce]\<rparr>) \<and>
   sourceGet (recordSource (store afterRename)) ''2'' =
     Some (Rec [(''__id'', ScalarString ''2''), (''name'', ScalarString ''Opti'')]) \<and>
   returned (run exampleCollaborators
      (revertAll (afterRename\<lparr>appliedOptimisticUpdates := [optimisticRenameOnce]\<rparr>)))
     \<noteq> Aborted \<and>
   sourceGet (recordSource (store (queueAfter (run exampleCollaborators
      (revertAll (afterRename\<lparr>appliedOptimisticUpdates := [optimisticRenameOnce]\<rparr>))))))
      ''2'' =
     Some (Rec [(''__id'', ScalarString ''2''), (''name'', ScalarString ''Bob'')])"
proof -
  let ?st = "storeCreate friendSource Defer :: (unit, string, dataID) relayStore"
  have quiet: "\<not> shouldScheduleGC ?st"
    and src: "recordSource ?st = friendSource"
    by (simp_all add: storeCreate_def)
  have keeps: "\<forall>us \<in> set [[optimisticRenameOnce]]. \<forall>u \<in> set us.
      keepsNegative exampleCollaborators (recordSource ?st) u"
    by (simp add: src renameOnce_keepsNegative)
  have series: "optimisticSeries exampleCollaborators [[optimisticRenameOnce]]
      (queueCreate ?st None) =
        Some (afterRename\<lparr>appliedOptimisticUpdates := [optimisticRenameOnce]\<rparr>)"
    using series_example by (simp add: exampleQueue_def)
  have before: "sourceGet (recordSource (store afterRename)) ''2'' =
     Some (Rec [(''__id'', ScalarString ''2''), (''name'', ScalarString ''Opti'')])"
    and original: "sourceGet friendSource ''2'' =
     Some (Rec [(''__id'', ScalarString ''2''), (''name'', ScalarString ''Bob'')])"
    by (simp_all add: afterRename_def sourceGet_def friendSource_def)
  show ?thesis
    using optimistic_series_undone [OF quiet keeps series refl]
      quiet renameOnce_keepsNegative series_example before original
    by (simp add: src)
qed

end
